theory Spec2Isabelle
  imports Complex_Main "HOL-Library.Log_Nat"
begin

section \<open>Data model\<close>

text \<open>
  The notebooks fold a chain of hydrophobic/polar residues on a square lattice. A residue is
  one of the two symbols produced by \<open>random_division\<close>; a lattice cell holds the empty
  string, a residue symbol or the fence mark \<open>'F'\<close>. Positions are pairs of Python
  integers (row, column). Turns and orientations stay strings, as in the source, because the
  code compares them by string equality and falls through \<open>else\<close> branches.
\<close>

datatype residue = H | P

datatype cell = Empty | Acid residue | Fence

datatype error = IndexError | KeyError | ZeroDivisionError | OverflowError

type_synonym position = "int \<times> int"

type_synonym placement = "residue \<times> position"

type_synonym grid = "cell list list"

section \<open>Direction model (Experiment 2)\<close>

definition movement_vectors :: "string \<rightharpoonup> position" where
  "movement_vectors =
     [''up'' \<mapsto> (-1, 0), ''down'' \<mapsto> (1, 0), ''left'' \<mapsto> (0, -1), ''right'' \<mapsto> (0, 1)]"

text \<open>
  \<open>get_new_orientation\<close> is an \<open>if/elif\<close> chain over the four orientation strings without
  a final \<open>else\<close>: for any other orientation Python returns \<open>None\<close>. Inside each branch
  the turn is tested against \<open>'left'\<close> only.
\<close>

definition get_new_orientation :: "string \<Rightarrow> string \<Rightarrow> string option" where
  "get_new_orientation current_orientation turn =
     (if current_orientation = ''up'' then
        Some (if turn = ''left'' then ''left'' else ''right'')
      else if current_orientation = ''down'' then
        Some (if turn = ''left'' then ''right'' else ''left'')
      else if current_orientation = ''left'' then
        Some (if turn = ''left'' then ''down'' else ''up'')
      else if current_orientation = ''right'' then
        Some (if turn = ''left'' then ''up'' else ''down'')
      else None)"

text \<open>
  The call site in \<open>initialize_grid_directional\<close>:
  \<^verbatim>\<open>if direction != 'straight': current_orientation = get_new_orientation(...)\<close>.
\<close>

definition turn_orientation :: "string \<Rightarrow> string \<Rightarrow> string option" where
  "turn_orientation current_orientation direction =
     (if direction \<noteq> ''straight'' then get_new_orientation current_orientation direction
      else Some current_orientation)"

subsection \<open>Classifying an already placed chain\<close>

definition vec_up :: position where "vec_up = (-1, 0)"
definition vec_down :: position where "vec_down = (1, 0)"
definition vec_left :: position where "vec_left = (0, -1)"
definition vec_right :: position where "vec_right = (0, 1)"

text \<open>The body of the \<open>for i in range(1, len(amino_acid_order))\<close> loop, for one index.\<close>

definition classify_move :: "placement list \<Rightarrow> nat \<Rightarrow> string" where
  "classify_move amino_acid_order i =
     (let cur = snd (amino_acid_order ! i);
          prev = snd (amino_acid_order ! (i - 1));
          move_vector = (fst cur - fst prev, snd cur - snd prev)
      in if i = 1 then ''straight''
         else
           let prev_prev = snd (amino_acid_order ! (i - 2));
               prev_move_vector = (fst prev - fst prev_prev, snd prev - snd prev_prev)
           in if prev_move_vector \<in> set [vec_up, vec_down] then
                (if move_vector = vec_left then
                   (if prev_move_vector = vec_up then ''left'' else ''right'')
                 else if move_vector = vec_right then
                   (if prev_move_vector = vec_up then ''right'' else ''left'')
                 else ''straight'')
              else
                (if move_vector = vec_up then
                   (if prev_move_vector = vec_right then ''left'' else ''right'')
                 else if move_vector = vec_down then
                   (if prev_move_vector = vec_right then ''right'' else ''left'')
                 else ''straight''))"

definition determine_directions :: "placement list \<Rightarrow> string list" where
  "determine_directions amino_acid_order =
     ''Start'' # map (classify_move amino_acid_order) [1..<length amino_acid_order]"

section \<open>Lattice\<close>

text \<open>
  The lattice is a square numpy array of objects, here a list of rows. Reads and writes
  that the source guards with \<open>0 <= row < grid_size and 0 <= col < grid_size\<close> use
  \<open>grid_get\<close> and \<open>grid_set\<close>; an unguarded write goes through \<open>np_setitem\<close>, which
  raises \<open>IndexError\<close> out of range and wraps a negative index as numpy does.
\<close>

definition np_full :: "nat \<Rightarrow> grid" where
  "np_full grid_size = replicate grid_size (replicate grid_size Empty)"

definition shape0 :: "grid \<Rightarrow> nat" where
  "shape0 g = length g"

definition shape1 :: "grid \<Rightarrow> nat" where
  "shape1 g = (case g of [] \<Rightarrow> 0 | row # _ \<Rightarrow> length row)"

definition in_bounds :: "nat \<Rightarrow> position \<Rightarrow> bool" where
  "in_bounds grid_size p =
     (0 \<le> fst p \<and> fst p < int grid_size \<and> 0 \<le> snd p \<and> snd p < int grid_size)"

definition grid_get :: "grid \<Rightarrow> position \<Rightarrow> cell" where
  "grid_get g p = g ! nat (fst p) ! nat (snd p)"

definition grid_set :: "grid \<Rightarrow> position \<Rightarrow> cell \<Rightarrow> grid" where
  "grid_set g p v = g[nat (fst p) := (g ! nat (fst p))[nat (snd p) := v]]"

definition np_index :: "nat \<Rightarrow> int \<Rightarrow> nat option" where
  "np_index n i =
     (if 0 \<le> i \<and> i < int n then Some (nat i)
      else if - int n \<le> i \<and> i < 0 then Some (nat (i + int n))
      else None)"

definition np_setitem :: "grid \<Rightarrow> position \<Rightarrow> cell \<Rightarrow> error + grid" where
  "np_setitem g p v =
     (case np_index (shape0 g) (fst p) of
        None \<Rightarrow> Inl IndexError
      | Some r \<Rightarrow>
          (case np_index (shape1 g) (snd p) of
             None \<Rightarrow> Inl IndexError
           | Some c \<Rightarrow> Inr (g[r := (g ! r)[c := v]])))"

definition neighbors :: "position \<Rightarrow> position list" where
  "neighbors p =
     [(fst p - 1, snd p), (fst p + 1, snd p), (fst p, snd p - 1), (fst p, snd p + 1)]"

definition valid_neighbors :: "nat \<Rightarrow> grid \<Rightarrow> position \<Rightarrow> position list" where
  "valid_neighbors grid_size g p =
     filter (\<lambda>q. in_bounds grid_size q \<and> grid_get g q = Empty) (neighbors p)"

text \<open>
  \<open>np.random.shuffle(valid_neighbors)\<close> followed by \<open>valid_neighbors[0]\<close>: any element
  of the list may come first. The random draw is a number supplied from outside; the
  element at that index (modulo the length) is the one the shuffle puts first.
\<close>

definition shuffle_first :: "nat \<Rightarrow> position list \<Rightarrow> position" where
  "shuffle_first draw valid = valid ! (draw mod length valid)"

section \<open>Stochastic placement engine (Experiment 1)\<close>

text \<open>
  The \<open>while total_amino_acids > 0\<close> loop of \<open>initialize_grid\<close>. \<open>rng k\<close> is the draw of
  iteration \<open>k\<close>. \<open>amino_acid_order[-1]\<close> raises \<open>IndexError\<close> on an empty order.
\<close>

function initialize_grid_loop ::
  "(nat \<Rightarrow> nat) \<Rightarrow> nat \<Rightarrow> nat \<Rightarrow> grid \<Rightarrow> placement list \<Rightarrow> residue list \<Rightarrow> nat
     \<Rightarrow> error + (grid \<times> placement list)" where
  "initialize_grid_loop rng k grid_size g amino_acid_order amino_acids_copy total_amino_acids =
     (if total_amino_acids > 0 then
        (if amino_acid_order = [] then Inl IndexError
         else if valid_neighbors grid_size g (snd (last amino_acid_order)) \<noteq> []
                 \<and> amino_acids_copy \<noteq> [] then
           initialize_grid_loop rng (Suc k) grid_size
             (grid_set g
                (shuffle_first (rng k)
                   (valid_neighbors grid_size g (snd (last amino_acid_order))))
                (Acid (hd amino_acids_copy)))
             (amino_acid_order @
                [(hd amino_acids_copy,
                  shuffle_first (rng k)
                    (valid_neighbors grid_size g (snd (last amino_acid_order))))])
             (tl amino_acids_copy) (total_amino_acids - 1)
         else Inr (g, amino_acid_order))
      else Inr (g, amino_acid_order))"
  by pat_completeness auto
termination
  by (relation "measure (\<lambda>(rng, k, grid_size, g, ord, copy, m). m)") auto

declare initialize_grid_loop.simps [simp del]

text \<open>The parameters \<open>num_hydrophobic\<close> and \<open>num_polar\<close> of the source are never read.\<close>

definition initialize_grid :: "(nat \<Rightarrow> nat) \<Rightarrow> residue list \<Rightarrow> error + (grid \<times> placement list)" where
  "initialize_grid rng amino_acids =
     (let total_amino_acids = length amino_acids;
          grid_size = total_amino_acids * 2;
          first = (int (grid_size div 2), int (grid_size div 2))
      in case amino_acids of
           [] \<Rightarrow> Inl IndexError
         | amino_acid_type # amino_acids_copy \<Rightarrow>
             (case np_setitem (np_full grid_size) first (Acid amino_acid_type) of
                Inl e \<Rightarrow> Inl e
              | Inr g \<Rightarrow>
                  initialize_grid_loop rng 0 grid_size g [(amino_acid_type, first)]
                    amino_acids_copy (total_amino_acids - 1)))"

section \<open>Deterministic directional placement engine (Experiment 2)\<close>

definition generate_random_directions :: "(nat \<Rightarrow> nat) \<Rightarrow> nat \<Rightarrow> string list" where
  "generate_random_directions rng total_amino_acids =
     [''Start'', ''straight''] @
     map (\<lambda>i. [''left'', ''straight'', ''right''] ! (rng i mod 3)) [2..<total_amino_acids]"

text \<open>
  The \<open>for direction in directions\<close> loop. The state is the grid, the order, the residues
  left, the current cell and the current orientation. \<open>pop(0)\<close> on an empty list raises
  \<open>IndexError\<close>; \<open>movement_vectors[None]\<close> raises \<open>KeyError\<close>. The test
  \<open>if not amino_acids_copy: break\<close> closes every iteration that did not break before.
\<close>

fun directional_loop ::
  "string list \<Rightarrow> nat \<Rightarrow> grid \<Rightarrow> placement list \<Rightarrow> residue list \<Rightarrow> position \<Rightarrow> string
     \<Rightarrow> error + (grid \<times> placement list)" where
  "directional_loop [] grid_size g amino_acid_order amino_acids_copy cur current_orientation =
     Inr (g, amino_acid_order)"
| "directional_loop (direction # directions) grid_size g amino_acid_order amino_acids_copy cur
       current_orientation =
     (if direction = ''Start'' then
        (case amino_acids_copy of
           [] \<Rightarrow> Inl IndexError
         | amino_acid_type # rest \<Rightarrow>
             (case np_setitem g cur (Acid amino_acid_type) of
                Inl e \<Rightarrow> Inl e
              | Inr g' \<Rightarrow>
                  if rest = [] then Inr (g', amino_acid_order @ [(amino_acid_type, cur)])
                  else directional_loop directions grid_size g'
                         (amino_acid_order @ [(amino_acid_type, cur)]) rest cur
                         current_orientation))
      else
        (case turn_orientation current_orientation direction of
           None \<Rightarrow> Inl KeyError
         | Some orientation' \<Rightarrow>
             (case movement_vectors orientation' of
                None \<Rightarrow> Inl KeyError
              | Some move \<Rightarrow>
                  if in_bounds grid_size (fst cur + fst move, snd cur + snd move)
                     \<and> grid_get g (fst cur + fst move, snd cur + snd move) = Empty then
                    (case amino_acids_copy of
                       [] \<Rightarrow> Inl IndexError
                     | amino_acid_type # rest \<Rightarrow>
                         if rest = [] then
                           Inr (grid_set g (fst cur + fst move, snd cur + snd move)
                                  (Acid amino_acid_type),
                                amino_acid_order @
                                  [(amino_acid_type, (fst cur + fst move, snd cur + snd move))])
                         else
                           directional_loop directions grid_size
                             (grid_set g (fst cur + fst move, snd cur + snd move)
                                (Acid amino_acid_type))
                             (amino_acid_order @
                                [(amino_acid_type, (fst cur + fst move, snd cur + snd move))])
                             rest (fst cur + fst move, snd cur + snd move) orientation')
                  else Inr (g, amino_acid_order))))"

definition initialize_grid_directional ::
  "residue list \<Rightarrow> string list \<Rightarrow> error + (grid \<times> placement list)" where
  "initialize_grid_directional amino_acids directions =
     (let total_amino_acids = length amino_acids;
          grid_size = total_amino_acids * 2
      in directional_loop directions grid_size (np_full grid_size) [] amino_acids
           (int (grid_size div 2), int (grid_size div 2)) ''right'')"

section \<open>Conformations\<close>

text \<open>
  The predicates in which the properties of a conformation (lattice and placement order) are
  stated. \<open>adjacent\<close> is lattice adjacency: Manhattan distance one. \<open>connected\<close> says that
  every placement after the first is adjacent to its predecessor. \<open>on_grid\<close> says that
  every recorded placement is inside the lattice and the lattice holds its residue there.
  \<open>conformation\<close> is the invariant of a placement run: a square lattice whose occupied
  cells are exactly the recorded positions, no position recorded twice, the chain connected.
\<close>

definition wf_grid :: "nat \<Rightarrow> grid \<Rightarrow> bool" where
  "wf_grid n g = (length g = n \<and> (\<forall>row \<in> set g. length row = n))"

definition adjacent :: "position \<Rightarrow> position \<Rightarrow> bool" where
  "adjacent p q = (\<bar>fst p - fst q\<bar> + \<bar>snd p - snd q\<bar> = 1)"

definition connected :: "placement list \<Rightarrow> bool" where
  "connected ord = (\<forall>i. 0 < i \<and> i < length ord \<longrightarrow> adjacent (snd (ord ! i)) (snd (ord ! (i - 1))))"

definition on_grid :: "nat \<Rightarrow> grid \<Rightarrow> placement list \<Rightarrow> bool" where
  "on_grid n g ord = (\<forall>x \<in> set ord. in_bounds n (snd x) \<and> grid_get g (snd x) = Acid (fst x))"

definition conformation :: "nat \<Rightarrow> grid \<Rightarrow> placement list \<Rightarrow> bool" where
  "conformation n g ord =
     (wf_grid n g \<and> on_grid n g ord \<and>
      (\<forall>p. in_bounds n p \<and> grid_get g p \<noteq> Empty \<longrightarrow> p \<in> snd ` set ord) \<and>
      distinct (map snd ord) \<and> connected ord)"

definition is_orientation :: "string \<Rightarrow> bool" where
  "is_orientation s = (s \<in> set [''up'', ''down'', ''left'', ''right''])"

text \<open>A finite list of random draws, continued with zeros.\<close>

definition draws :: "nat list \<Rightarrow> nat \<Rightarrow> nat" where
  "draws ds k = (if k < length ds then ds ! k else 0)"

section \<open>Contact analyzer\<close>

text \<open>
  \<open>find_H_pairs_grid\<close> scans every cell; for a cell holding \<open>'H'\<close> it adds the unordered
  pair (a \<open>frozenset\<close>) of the cell and each in-bounds neighbour that holds \<open>'H'\<close>
  (\<open>cell_H_pairs\<close> is the body of the two nested loops).
  \<open>find_H_pairs_order\<close> adds the pair of positions of every two consecutive \<open>'H'\<close>
  entries of the order. A Python set of frozensets is a set of sets of positions.
\<close>

definition cell_H_pairs :: "grid \<Rightarrow> nat \<Rightarrow> nat \<Rightarrow> position set list" where
  "cell_H_pairs g row col =
     (if g ! row ! col = Acid H then
        map (\<lambda>q. {(int row, int col), q})
          (filter (\<lambda>q. 0 \<le> fst q \<and> fst q < int (shape0 g) \<and>
                       0 \<le> snd q \<and> snd q < int (shape1 g) \<and> grid_get g q = Acid H)
             (neighbors (int row, int col)))
      else [])"

definition find_H_pairs_grid :: "grid \<Rightarrow> position set set" where
  "find_H_pairs_grid g =
     set (concat (map (\<lambda>row. concat (map (cell_H_pairs g row) [0..<shape1 g]))
       [0..<shape0 g]))"

definition find_H_pairs_order :: "placement list \<Rightarrow> position set set" where
  "find_H_pairs_order amino_acid_order =
     set (concat (map (\<lambda>i.
       if fst (amino_acid_order ! i) = H \<and> fst (amino_acid_order ! (i + 1)) = H then
         [{snd (amino_acid_order ! i), snd (amino_acid_order ! (i + 1))}]
       else []) [0..<length amino_acid_order - 1]))"

definition find_H_bonds :: "grid \<Rightarrow> placement list \<Rightarrow> position set set" where
  "find_H_bonds g amino_acid_order = find_H_pairs_grid g - find_H_pairs_order amino_acid_order"

text \<open>
  A placement order lies on a straight lattice line when every step is the same one of the
  four movement vectors.
\<close>

definition straight_with :: "position \<Rightarrow> placement list \<Rightarrow> bool" where
  "straight_with d ord =
     (\<forall>i \<in> {0..<length ord - 1}.
        snd (ord ! Suc i) = (fst (snd (ord ! i)) + fst d, snd (snd (ord ! i)) + snd d))"

definition straight_line :: "placement list \<Rightarrow> bool" where
  "straight_line ord = (\<exists>d \<in> set [vec_up, vec_down, vec_left, vec_right]. straight_with d ord)"

section \<open>Samples and the H-ratio\<close>


text \<open>
  \<open>hbonds / amino_acids_on_grid\<close> is a true division; its result is a float, an IEEE 754
  binary64 number. A finite float is represented by its value, a rational; \<open>inf\<close> and
  \<open>nan\<close> are values of their own.

  \<open>round_double a b\<close> is the float nearest to the quotient of two non-negative integers,
  for \<open>0 < b\<close>. With \<open>e\<close> the integer such that \<open>2 ^ e \<le> a / b < 2 ^ (e + 1)\<close>, and at
  least \<open>-1022\<close> (the subnormal range), the floats around \<open>a / b\<close> are the multiples of
  \<open>2 ^ (e - 52)\<close>; the quotient is rounded to the nearest multiple, and to the one with an
  even multiplier at a tie. \<open>floor_log2\<close> finds \<open>e\<close> from the bit lengths of \<open>a\<close> and \<open>b\<close>,
  whose difference is \<open>e\<close> or \<open>e + 1\<close>.
\<close>

datatype pyfloat = Finite rat | Infinity | NaN

definition round_half_even :: "rat \<Rightarrow> int" where
  "round_half_even x =
     (if x - of_int \<lfloor>x\<rfloor> < 1 / 2 then \<lfloor>x\<rfloor>
      else if 1 / 2 < x - of_int \<lfloor>x\<rfloor> then \<lfloor>x\<rfloor> + 1
      else if even \<lfloor>x\<rfloor> then \<lfloor>x\<rfloor> else \<lfloor>x\<rfloor> + 1)"

definition floor_log2 :: "nat \<Rightarrow> nat \<Rightarrow> int" where
  "floor_log2 a b =
     (if (2::rat) powi (int (floorlog 2 a) - int (floorlog 2 b)) \<le> of_nat a / of_nat b
      then int (floorlog 2 a) - int (floorlog 2 b)
      else int (floorlog 2 a) - int (floorlog 2 b) - 1)"

definition ulp :: "nat \<Rightarrow> nat \<Rightarrow> rat" where
  "ulp a b = 2 powi (max (floor_log2 a b) (- 1022) - 52)"

definition round_double :: "nat \<Rightarrow> nat \<Rightarrow> rat" where
  "round_double a b =
     of_int (round_half_even (of_nat a / of_nat b / ulp a b)) * ulp a b"

text \<open>The conversion of a non-negative integer to a float, as an integer again.\<close>

definition to_double :: "nat \<Rightarrow> nat" where
  "to_double a = nat \<lfloor>round_double a 1\<rfloor>"

text \<open>
  The dividend \<open>hbonds\<close> is a Python \<open>int\<close>, the result of \<open>len\<close>. The type of the divisor
  depends on the numpy release that runs the notebook: \<open>np.count_nonzero\<close> returns a
  Python \<open>int\<close> up to numpy 2.2 and a numpy integer scalar (\<open>np.intp\<close>) from numpy 2.3 on.

    \<^item> \<open>int / int\<close> returns the float nearest to the exact quotient. It raises
      \<open>ZeroDivisionError\<close> when the divisor is zero, and \<open>OverflowError\<close> when the nearest
      float would be \<open>2 ^ 1024\<close> or more (the test below: the integer part of the rounded
      quotient has more than 1024 bits).

    \<^item> \<open>int / np.intp\<close> is numpy's scalar division: it converts both operands to floats
      and divides the floats. Nothing is raised at a zero divisor: the result is \<open>nan\<close>
      for \<open>0 / 0\<close> and \<open>inf\<close> otherwise, with a \<open>RuntimeWarning\<close>. A dividend that does not
      fit in 64 bits raises \<open>OverflowError\<close>; the divisor, a count of cells, always fits.
\<close>

datatype count_type = PyInt | NpIntp

definition true_divide :: "count_type \<Rightarrow> nat \<Rightarrow> nat \<Rightarrow> error + pyfloat" where
  "true_divide t a b =
     (case t of
        PyInt \<Rightarrow>
          if b = 0 then Inl ZeroDivisionError
          else if floorlog 2 (nat \<lfloor>round_double a b\<rfloor>) \<le> 1024
          then Inr (Finite (round_double a b))
          else Inl OverflowError
      | NpIntp \<Rightarrow>
          if 2 ^ 63 \<le> int a then Inl OverflowError
          else if b = 0 then Inr (if a = 0 then NaN else Infinity)
          else Inr (Finite (round_double (to_double a) (to_double b))))"




section \<open>Backtracking placement engine (Experiment 4)\<close>

text \<open>
  \<open>place_amino_acid\<close> is recursive in the source. Its arguments \<open>last_amino_row\<close> and
  \<open>last_amino_col\<close> are both \<open>None\<close> or both set: one optional position. The argument
  \<open>fenced\<close> is never read. The function mutates \<open>grid\<close> and \<open>amino_acid_order\<close> and returns
  the success flag and the backtrack count; the model returns all four. \<open>rng k\<close> is the
  draw of the \<open>k\<close>-th call that shuffles.

  On a dead end the source puts the residue it has just popped back at the head of
  \<open>amino_acids_copy\<close>, empties the cell of the last placement and pops the last
  placement from the order.
\<close>

definition clear_fences :: "grid \<Rightarrow> grid" where
  "clear_fences g = map (map (\<lambda>c. if c = Fence then Empty else c)) g"

function place_amino_acid ::
  "(nat \<Rightarrow> nat) \<Rightarrow> nat \<Rightarrow> grid \<Rightarrow> residue list \<Rightarrow> placement list \<Rightarrow> nat \<Rightarrow> position option
     \<Rightarrow> nat \<Rightarrow> nat \<Rightarrow> nat \<Rightarrow> nat \<Rightarrow> error + (bool \<times> nat \<times> grid \<times> placement list)" where
  "place_amino_acid rng k g amino_acids_copy amino_acid_order backtrack_count last_amino
       we_just_backtracked fence_limit fences acids_placed_since_backtrack =
     (if amino_acids_copy = [] then Inr (True, backtrack_count, g, amino_acid_order)
      else
        (case last_amino of
           None \<Rightarrow>
             (case np_setitem g (int (length g div 2), int (length g div 2))
                     (Acid (hd amino_acids_copy)) of
                Inl e \<Rightarrow> Inl e
              | Inr g' \<Rightarrow>
                  place_amino_acid rng k g' (tl amino_acids_copy)
                    (amino_acid_order @
                       [(hd amino_acids_copy, (int (length g div 2), int (length g div 2)))])
                    backtrack_count (Some (int (length g div 2), int (length g div 2)))
                    we_just_backtracked fence_limit fences acids_placed_since_backtrack)
         | Some p \<Rightarrow>
             if length (valid_neighbors (length g) g p) > 0 then
               place_amino_acid rng (Suc k)
                 (grid_set g (shuffle_first (rng k) (valid_neighbors (length g) g p))
                    (Acid (hd amino_acids_copy)))
                 (tl amino_acids_copy)
                 (amino_acid_order @
                    [(hd amino_acids_copy,
                      shuffle_first (rng k) (valid_neighbors (length g) g p))])
                 backtrack_count
                 (Some (shuffle_first (rng k) (valid_neighbors (length g) g p)))
                 0 fence_limit fences (acids_placed_since_backtrack + 1)
             else
               (case np_setitem g p Empty of
                  Inl e \<Rightarrow> Inl e
                | Inr g' \<Rightarrow>
                    if amino_acid_order = [] then Inl IndexError
                    else if butlast amino_acid_order = [] then
                      Inr (False, backtrack_count + 1,
                           if acids_placed_since_backtrack > fences then clear_fences g' else g',
                           butlast amino_acid_order)
                    else
                      place_amino_acid rng (Suc k)
                        (if acids_placed_since_backtrack > fences then clear_fences g' else g')
                        amino_acids_copy (butlast amino_acid_order) (backtrack_count + 1)
                        (Some (snd (last (butlast amino_acid_order)))) 1 (fence_limit + 1)
                        (if acids_placed_since_backtrack > fences then 0 else fences) 0)))"
  by pat_completeness auto
termination
  by (relation "measure (\<lambda>(rng, k, g, copy, ord, rest). 2 * length copy + length ord)")
     (auto simp: Suc_lessI)

declare place_amino_acid.simps [simp del]

text \<open>
  \<open>initialize_grid\<close> of Experiment 4. It drops the success flag of \<open>place_amino_acid\<close>.
\<close>

definition initialize_grid_backtracking ::
  "(nat \<Rightarrow> nat) \<Rightarrow> residue list \<Rightarrow> error + (grid \<times> placement list \<times> nat)" where
  "initialize_grid_backtracking rng amino_acids =
     (case place_amino_acid rng 0 (np_full (length amino_acids * 2)) amino_acids [] 0 None
             0 0 0 0 of
        Inl e \<Rightarrow> Inl e
      | Inr (is_placed, backtrack_count, g, amino_acid_order) \<Rightarrow>
          Inr (g, amino_acid_order, backtrack_count))"

section \<open>Lattice and invariant lemmas\<close>

lemma wf_np_full: "wf_grid n (np_full n)"
  by (simp add: wf_grid_def np_full_def)

lemma get_np_full:
  assumes "in_bounds n p"
  shows "grid_get (np_full n) p = Empty"
proof -
  have "nat (fst p) < n" "nat (snd p) < n"
    using assms by (auto simp: in_bounds_def)
  then show ?thesis by (simp add: grid_get_def np_full_def)
qed

lemma wf_grid_set:
  assumes "wf_grid n g"
  shows "wf_grid n (grid_set g p v)"
proof -
  let ?r = "nat (fst p)"
  have "set (g[?r := (g ! ?r)[nat (snd p) := v]]) \<subseteq> insert ((g ! ?r)[nat (snd p) := v]) (set g)"
    by (rule set_update_subset_insert)
  moreover have "?r < length g \<Longrightarrow> length ((g ! ?r)[nat (snd p) := v]) = n"
    using assms by (simp add: wf_grid_def)
  moreover have "\<not> ?r < length g \<Longrightarrow> g[?r := (g ! ?r)[nat (snd p) := v]] = g"
    by (simp add: not_less list_update_beyond)
  ultimately show ?thesis
    using assms unfolding wf_grid_def grid_set_def
    by (cases "?r < length g") auto
qed

lemma get_grid_set:
  assumes "wf_grid n g" "in_bounds n p" "in_bounds n q"
  shows "grid_get (grid_set g p v) q = (if q = p then v else grid_get g q)"
proof -
  have lp: "nat (fst p) < length g" and lq: "nat (fst q) < length g"
    using assms by (auto simp: wf_grid_def in_bounds_def)
  have rp: "nat (snd p) < length (g ! nat (fst p))"
    using assms lp by (auto simp: wf_grid_def in_bounds_def)
  have neq: "q \<noteq> p \<Longrightarrow> nat (fst q) \<noteq> nat (fst p) \<or> nat (snd q) \<noteq> nat (snd p)"
    using assms(2,3) by (auto simp: in_bounds_def prod_eq_iff)
  show ?thesis
    using lp lq rp neq
    by (auto simp: grid_get_def grid_set_def nth_list_update)
qed

lemma np_setitem_in_bounds:
  assumes "wf_grid n g" "in_bounds n p"
  shows "np_setitem g p v = Inr (grid_set g p v)"
proof -
  have "g \<noteq> []" using assms by (auto simp: wf_grid_def in_bounds_def)
  then have "shape1 g = n" using assms(1)
    by (cases g) (auto simp: shape1_def wf_grid_def)
  moreover have "shape0 g = n" using assms(1) by (simp add: shape0_def wf_grid_def)
  ultimately show ?thesis
    using assms(2) by (simp add: np_setitem_def np_index_def in_bounds_def grid_set_def)
qed

lemma connected_snoc:
  "connected (ord @ [x]) \<longleftrightarrow> connected ord \<and> (ord \<noteq> [] \<longrightarrow> adjacent (snd x) (snd (last ord)))"
proof (cases "ord = []")
  case True
  then show ?thesis by (simp add: connected_def)
next
  case False
  have "connected (ord @ [x]) \<longleftrightarrow>
        (\<forall>i. 0 < i \<and> i < Suc (length ord) \<longrightarrow>
           adjacent (snd ((ord @ [x]) ! i)) (snd ((ord @ [x]) ! (i - 1))))"
    by (simp add: connected_def)
  also have "\<dots> \<longleftrightarrow> connected ord \<and> adjacent (snd x) (snd (ord ! (length ord - 1)))"
    using False unfolding connected_def less_Suc_eq
    by (auto simp: nth_append)
  finally show ?thesis using False by (simp add: last_conv_nth)
qed

lemma adjacent_sym: "adjacent p q = adjacent q p"
  by (auto simp: adjacent_def)

lemma conformation_empty: "conformation n (np_full n) []"
  by (simp add: conformation_def wf_np_full on_grid_def get_np_full connected_def)

lemma conformation_place:
  assumes c: "conformation n g ord" and b: "in_bounds n q" and e: "grid_get g q = Empty"
    and a: "ord \<noteq> [] \<longrightarrow> adjacent q (snd (last ord))"
  shows "conformation n (grid_set g q (Acid a)) (ord @ [(a, q)])"
proof -
  have wf: "wf_grid n g" using c by (simp add: conformation_def)
  have og: "on_grid n g ord" using c by (simp add: conformation_def)
  have fresh: "q \<notin> snd ` set ord"
    using og e by (auto simp: on_grid_def)
  have 1: "wf_grid n (grid_set g q (Acid a))" using wf by (rule wf_grid_set)
  have 2: "on_grid n (grid_set g q (Acid a)) (ord @ [(a, q)])"
    using og fresh b by (auto simp: on_grid_def get_grid_set [OF wf b])
  have 3: "\<forall>p. in_bounds n p \<and> grid_get (grid_set g q (Acid a)) p \<noteq> Empty
            \<longrightarrow> p \<in> snd ` set (ord @ [(a, q)])"
  proof (intro allI impI)
    fix p assume h: "in_bounds n p \<and> grid_get (grid_set g q (Acid a)) p \<noteq> Empty"
    show "p \<in> snd ` set (ord @ [(a, q)])"
    proof (cases "p = q")
      case True
      then show ?thesis by simp
    next
      case False
      with h have "grid_get g p \<noteq> Empty"
        using get_grid_set [OF wf b, of p "Acid a"] by simp
      with h c have "p \<in> snd ` set ord" unfolding conformation_def by blast
      then show ?thesis by auto
    qed
  qed
  have 4: "distinct (map snd (ord @ [(a, q)]))"
    using c fresh by (simp add: conformation_def)
  have 5: "connected (ord @ [(a, q)])"
    using c a by (simp add: connected_snoc conformation_def)
  show ?thesis using 1 2 3 4 5 by (simp add: conformation_def)
qed

lemma valid_neighbors_props:
  assumes "q \<in> set (valid_neighbors n g p)"
  shows "in_bounds n q" "grid_get g q = Empty" "adjacent q p"
  using assms by (auto simp: valid_neighbors_def neighbors_def adjacent_def split: if_splits)

lemma shuffle_first_mem: "valid \<noteq> [] \<Longrightarrow> shuffle_first d valid \<in> set valid"
  by (simp add: shuffle_first_def)


lemma initialize_grid_loop_result:
  assumes "conformation n g ord" "ord \<noteq> []"
  shows "\<exists>g' ys. initialize_grid_loop rng k n g ord copy m = Inr (g', ord @ ys) \<and>
           conformation n g' (ord @ ys) \<and> length ys \<le> length copy \<and>
           map fst ys = take (length ys) copy \<and>
           (m = length copy \<and> length ys < length copy \<longrightarrow>
              valid_neighbors n g' (snd (last (ord @ ys))) = [])"
  using assms
proof (induction rng k n g ord copy m rule: initialize_grid_loop.induct)
  case (1 rng k n g ord copy m)
  let ?valid = "valid_neighbors n g (snd (last ord))"
  show ?case
  proof (cases "m > 0 \<and> ?valid \<noteq> [] \<and> copy \<noteq> []")
    case False
    then have "initialize_grid_loop rng k n g ord copy m = Inr (g, ord)"
      using "1.prems"(2) by (subst initialize_grid_loop.simps) auto
    then show ?thesis using "1.prems"(1) False by (intro exI [of _ g] exI [of _ "[]"]) auto
  next
    case True
    let ?q = "shuffle_first (rng k) ?valid"
    let ?a = "hd copy"
    have q: "?q \<in> set ?valid" using True by (simp add: shuffle_first_mem)
    have conf: "conformation n (grid_set g ?q (Acid ?a)) (ord @ [(?a, ?q)])"
      using "1.prems"(1) valid_neighbors_props [OF q]
      by (intro conformation_place) simp_all
    from "1.IH" [OF _ "1.prems"(2) _ conf] True
    obtain g' ys where r:
      "initialize_grid_loop rng (Suc k) n (grid_set g ?q (Acid ?a)) (ord @ [(?a, ?q)])
         (tl copy) (m - 1) = Inr (g', (ord @ [(?a, ?q)]) @ ys)"
      "conformation n g' ((ord @ [(?a, ?q)]) @ ys)"
      "length ys \<le> length (tl copy)" "map fst ys = take (length ys) (tl copy)"
      "m - 1 = length (tl copy) \<and> length ys < length (tl copy) \<longrightarrow>
         valid_neighbors n g' (snd (last ((ord @ [(?a, ?q)]) @ ys))) = []"
      by auto
    have unfold: "initialize_grid_loop rng k n g ord copy m =
        initialize_grid_loop rng (Suc k) n (grid_set g ?q (Acid ?a)) (ord @ [(?a, ?q)])
          (tl copy) (m - 1)"
      using True "1.prems"(2) by (subst initialize_grid_loop.simps) simp
    have copy: "copy = ?a # tl copy" using True by simp
    have "map fst ((?a, ?q) # ys) = take (length ((?a, ?q) # ys)) copy"
      using r(4) by (subst (2) copy) simp
    moreover have "length ((?a, ?q) # ys) \<le> length copy"
      using r(3) True by (cases copy) auto
    moreover have "m = length copy \<and> length ((?a, ?q) # ys) < length copy \<longrightarrow>
        valid_neighbors n g' (snd (last (ord @ (?a, ?q) # ys))) = []"
      using r(5) True by (cases copy) auto
    ultimately show ?thesis
      using r(1,2) unfold
      by (intro exI [of _ g'] exI [of _ "(?a, ?q) # ys"]) simp
  qed
qed

lemma turn_orientation_valid:
  assumes "is_orientation ori"
  shows "\<exists>ori'. turn_orientation ori d = Some ori' \<and> is_orientation ori'"
  using assms by (auto simp: is_orientation_def turn_orientation_def get_new_orientation_def)

lemma movement_vectors_valid:
  assumes "is_orientation ori"
  shows "\<exists>mv. movement_vectors ori = Some mv \<and> adjacent (fst p + fst mv, snd p + snd mv) p"
  using assms by (auto simp: is_orientation_def movement_vectors_def adjacent_def)

lemma conformation_empty_cell:
  assumes "conformation n g []" "in_bounds n p"
  shows "grid_get g p = Empty"
  using assms unfolding conformation_def by (cases p) auto

lemma directional_loop_result:
  assumes "conformation n g ord" "in_bounds n cur" "ord \<noteq> [] \<longrightarrow> cur = snd (last ord)"
    "is_orientation ori" "copy \<noteq> []" "ord \<noteq> [] \<longrightarrow> ''Start'' \<notin> set ds"
    "''Start'' \<notin> set (tl ds)"
  shows "\<exists>g' ys. directional_loop ds n g ord copy cur ori = Inr (g', ord @ ys) \<and>
           conformation n g' (ord @ ys) \<and> length ys \<le> length copy \<and>
           map fst ys = take (length ys) copy \<and>
           (ord = [] \<and> ds \<noteq> [] \<and> hd ds = ''Start'' \<longrightarrow> ys \<noteq> [] \<and> snd (hd ys) = cur)"
  using assms
proof (induction ds arbitrary: g ord copy cur ori)
  case Nil
  then show ?case by (intro exI [of _ g] exI [of _ "[]"]) simp
next
  case (Cons d ds)
  obtain a rest where copy: "copy = a # rest" using Cons.prems(5) by (cases copy) auto
  have nostart: "''Start'' \<notin> set ds" using Cons.prems(7) by simp
  have wf: "wf_grid n g" using Cons.prems(1) by (simp add: conformation_def)
  show ?case
  proof (cases "d = ''Start''")
    case True
    then have ord: "ord = []" using Cons.prems(6) by auto
    have set: "np_setitem g cur (Acid a) = Inr (grid_set g cur (Acid a))"
      using wf Cons.prems(2) by (rule np_setitem_in_bounds)
    have empty: "grid_get g cur = Empty"
      using Cons.prems(1,2) ord by (simp add: conformation_empty_cell)
    have conf: "conformation n (grid_set g cur (Acid a)) (ord @ [(a, cur)])"
      using Cons.prems(1,2) empty ord by (intro conformation_place) simp_all
    show ?thesis
    proof (cases "rest = []")
      case True
      then show ?thesis
        using \<open>d = ''Start''\<close> copy set conf
        by (intro exI [of _ "grid_set g cur (Acid a)"] exI [of _ "[(a, cur)]"]) simp
    next
      case False
      from Cons.IH [OF conf Cons.prems(2) _ Cons.prems(4) False] nostart
      obtain g' ys where r:
        "directional_loop ds n (grid_set g cur (Acid a)) (ord @ [(a, cur)]) rest cur ori
           = Inr (g', (ord @ [(a, cur)]) @ ys)"
        "conformation n g' ((ord @ [(a, cur)]) @ ys)"
        "length ys \<le> length rest" "map fst ys = take (length ys) rest"
        by (cases ds) auto
      show ?thesis
        using \<open>d = ''Start''\<close> copy set False r
        by (intro exI [of _ g'] exI [of _ "(a, cur) # ys"]) simp
    qed
  next
    case False
    obtain ori' where ori': "turn_orientation ori d = Some ori'" "is_orientation ori'"
      using turn_orientation_valid [OF Cons.prems(4)] by blast
    obtain mv where mv: "movement_vectors ori' = Some mv"
      "adjacent (fst cur + fst mv, snd cur + snd mv) cur"
      using movement_vectors_valid [OF ori'(2)] by blast
    let ?t = "(fst cur + fst mv, snd cur + snd mv)"
    show ?thesis
    proof (cases "in_bounds n ?t \<and> grid_get g ?t = Empty")
      case blocked: False
      then have "directional_loop (d # ds) n g ord copy cur ori = Inr (g, ord)"
        using False ori'(1) mv(1) by auto
      then show ?thesis
        using Cons.prems(1) False by (intro exI [of _ g] exI [of _ "[]"]) simp
    next
      case free: True
      have conf: "conformation n (grid_set g ?t (Acid a)) (ord @ [(a, ?t)])"
        using Cons.prems(1,3) free mv(2) by (intro conformation_place) auto
      show ?thesis
      proof (cases "rest = []")
        case True
        then have "directional_loop (d # ds) n g ord copy cur ori
            = Inr (grid_set g ?t (Acid a), ord @ [(a, ?t)])"
          using False ori'(1) mv(1) free copy by simp
        then show ?thesis
          using conf copy False
          by (intro exI [of _ "grid_set g ?t (Acid a)"] exI [of _ "[(a, ?t)]"]) simp
      next
        case more: False
        have tb: "in_bounds n ?t" using free by simp
        from Cons.IH [OF conf tb _ ori'(2) more] nostart
        obtain g' ys where r:
          "directional_loop ds n (grid_set g ?t (Acid a)) (ord @ [(a, ?t)]) rest ?t ori'
             = Inr (g', (ord @ [(a, ?t)]) @ ys)"
          "conformation n g' ((ord @ [(a, ?t)]) @ ys)"
          "length ys \<le> length rest" "map fst ys = take (length ys) rest"
          by (cases ds) auto
        have "directional_loop (d # ds) n g ord copy cur ori
            = directional_loop ds n (grid_set g ?t (Acid a)) (ord @ [(a, ?t)]) rest ?t ori'"
          using False ori'(1) mv(1) free copy more by simp
        then show ?thesis
          using r copy False
          by (intro exI [of _ g'] exI [of _ "(a, ?t) # ys"]) simp
      qed
    qed
  qed
qed


lemma center_in_bounds: "0 < L \<Longrightarrow> in_bounds (L * 2) (int (L * 2 div 2), int (L * 2 div 2))"
  by (simp add: in_bounds_def)

lemma initialize_grid_result:
  assumes "amino_acids \<noteq> []"
  shows "\<exists>g ord. initialize_grid rng amino_acids = Inr (g, ord) \<and>
           conformation (length amino_acids * 2) g ord \<and> ord \<noteq> [] \<and>
           snd (hd ord) = (int (length amino_acids), int (length amino_acids)) \<and>
           length ord \<le> length amino_acids \<and>
           map fst ord = take (length ord) amino_acids \<and>
           (length ord < length amino_acids \<longrightarrow>
              valid_neighbors (length amino_acids * 2) g (snd (last ord)) = [])"
proof -
  obtain a copy where aa: "amino_acids = a # copy" using assms by (cases amino_acids) auto
  let ?L = "length amino_acids"
  let ?n = "?L * 2"
  let ?c = "(int (?n div 2), int (?n div 2))"
  have cb: "in_bounds ?n ?c" using assms by (intro center_in_bounds) simp
  have set: "np_setitem (np_full ?n) ?c (Acid a) = Inr (grid_set (np_full ?n) ?c (Acid a))"
    using wf_np_full cb by (rule np_setitem_in_bounds)
  have conf: "conformation ?n (grid_set (np_full ?n) ?c (Acid a)) ([] @ [(a, ?c)])"
    using conformation_empty cb get_np_full [OF cb] by (intro conformation_place) simp_all
  have conf': "conformation ?n (grid_set (np_full ?n) ?c (Acid a)) [(a, ?c)]"
    using conf by simp
  have ne: "[(a, ?c)] \<noteq> []" by simp
  from initialize_grid_loop_result [OF conf' ne, of rng 0 copy "?L - 1"]
  obtain g' ys where r:
    "initialize_grid_loop rng 0 ?n (grid_set (np_full ?n) ?c (Acid a)) [(a, ?c)] copy (?L - 1)
       = Inr (g', [(a, ?c)] @ ys)"
    "conformation ?n g' ([(a, ?c)] @ ys)" "length ys \<le> length copy"
    "map fst ys = take (length ys) copy"
    "?L - 1 = length copy \<and> length ys < length copy \<longrightarrow>
       valid_neighbors ?n g' (snd (last ([(a, ?c)] @ ys))) = []"
    by blast
  have "initialize_grid rng amino_acids = Inr (g', (a, ?c) # ys)"
    using r(1) set aa by (simp add: initialize_grid_def)
  moreover have "length ((a, ?c) # ys) < ?L \<longrightarrow>
      valid_neighbors ?n g' (snd (last ((a, ?c) # ys))) = []"
    using r(5) aa by auto
  ultimately show ?thesis
    using r(2,3,4) aa by (intro exI [of _ g'] exI [of _ "(a, ?c) # ys"]) simp
qed

lemma initialize_grid_directional_result:
  assumes "amino_acids \<noteq> []" "''Start'' \<notin> set (tl directions)"
  shows "\<exists>g ord. initialize_grid_directional amino_acids directions = Inr (g, ord) \<and>
           conformation (length amino_acids * 2) g ord \<and>
           length ord \<le> length amino_acids \<and>
           map fst ord = take (length ord) amino_acids \<and>
           (directions \<noteq> [] \<and> hd directions = ''Start'' \<longrightarrow>
              ord \<noteq> [] \<and> snd (hd ord) = (int (length amino_acids), int (length amino_acids)))"
proof -
  let ?L = "length amino_acids"
  let ?n = "?L * 2"
  let ?c = "(int (?n div 2), int (?n div 2))"
  have cb: "in_bounds ?n ?c" using assms by (intro center_in_bounds) simp
  have ori: "is_orientation ''right''" by (simp add: is_orientation_def)
  from directional_loop_result [OF conformation_empty cb _ ori assms(1) _ assms(2)]
  obtain g' ys where r:
    "directional_loop directions ?n (np_full ?n) [] amino_acids ?c ''right'' = Inr (g', [] @ ys)"
    "conformation ?n g' ([] @ ys)" "length ys \<le> length amino_acids"
    "map fst ys = take (length ys) amino_acids"
    "directions \<noteq> [] \<and> hd directions = ''Start'' \<longrightarrow> ys \<noteq> [] \<and> snd (hd ys) = ?c"
    by (metis (no_types, lifting))
  have "initialize_grid_directional amino_acids directions = Inr (g', ys)"
    using r(1) by (simp add: initialize_grid_directional_def)
  then show ?thesis
    using r(2,3,4,5) by (intro exI [of _ g'] exI [of _ ys]) simp
qed

lemma initialize_grid_directional_no_residues:
  assumes "initialize_grid_directional [] directions = Inr (g, ord)"
  shows "ord = []"
  using assms
  by (cases directions)
     (auto simp: initialize_grid_directional_def in_bounds_def split: option.splits if_splits)

lemma connected_distance:
  assumes "connected ord"
  shows "i < length ord \<Longrightarrow>
    \<bar>fst (snd (ord ! i)) - fst (snd (ord ! 0))\<bar> + \<bar>snd (snd (ord ! i)) - snd (snd (ord ! 0))\<bar> \<le> int i"
proof (induction i)
  case 0
  then show ?case by simp
next
  case (Suc i)
  then have "adjacent (snd (ord ! Suc i)) (snd (ord ! i))"
    using assms unfolding connected_def by (metis diff_Suc_1 zero_less_Suc)
  with Suc show ?case unfolding adjacent_def by simp
qed

lemma placement_inside:
  assumes c: "connected ord" and h: "snd (hd ord) = (int L, int L)" and l: "length ord \<le> L"
    and x: "x \<in> set ord"
  shows "1 \<le> fst (snd x) \<and> fst (snd x) \<le> 2 * int L - 1 \<and>
         1 \<le> snd (snd x) \<and> snd (snd x) \<le> 2 * int L - 1"
proof -
  from x obtain i where i: "i < length ord" "x = ord ! i" by (auto simp: in_set_conv_nth)
  then have "ord \<noteq> []" by auto
  then have "snd (ord ! 0) = (int L, int L)" using h by (simp add: hd_conv_nth)
  with connected_distance [OF c i(1)] i l show ?thesis by auto
qed

lemma initialize_grid_directional_start_empty:
  "initialize_grid_directional [] (''Start'' # directions) = Inl IndexError"
  by (simp add: initialize_grid_directional_def)

section \<open>Contact analyzer lemmas\<close>

lemma in_cell_H_pairs:
  "s \<in> set (cell_H_pairs g row col) \<longleftrightarrow>
     g ! row ! col = Acid H \<and>
     (\<exists>q \<in> set (neighbors (int row, int col)).
        0 \<le> fst q \<and> fst q < int (shape0 g) \<and> 0 \<le> snd q \<and> snd q < int (shape1 g) \<and>
        grid_get g q = Acid H \<and> s = {(int row, int col), q})"
  unfolding cell_H_pairs_def by auto

lemma in_find_H_pairs_grid:
  "s \<in> find_H_pairs_grid g \<longleftrightarrow>
     (\<exists>row < shape0 g. \<exists>col < shape1 g. s \<in> set (cell_H_pairs g row col))"
proof -
  have "s \<in> find_H_pairs_grid g \<longleftrightarrow>
     (\<exists>row \<in> {0..<shape0 g}. \<exists>col \<in> {0..<shape1 g}. s \<in> set (cell_H_pairs g row col))"
    unfolding find_H_pairs_grid_def by simp
  also have "\<dots> \<longleftrightarrow> (\<exists>row < shape0 g. \<exists>col < shape1 g. s \<in> set (cell_H_pairs g row col))"
    unfolding Bex_def by simp
  finally show ?thesis .
qed

lemma in_find_H_pairs_order:
  "s \<in> find_H_pairs_order ord \<longleftrightarrow>
     (\<exists>i. Suc i < length ord \<and> fst (ord ! i) = H \<and> fst (ord ! Suc i) = H \<and>
        s = {snd (ord ! i), snd (ord ! Suc i)})"
proof -
  have "s \<in> find_H_pairs_order ord \<longleftrightarrow>
     (\<exists>i \<in> {0..<length ord - 1}. fst (ord ! i) = H \<and> fst (ord ! Suc i) = H \<and>
        s = {snd (ord ! i), snd (ord ! Suc i)})"
    unfolding find_H_pairs_order_def by (auto split: if_splits)
  also have "\<dots> \<longleftrightarrow> (\<exists>i. Suc i < length ord \<and> fst (ord ! i) = H \<and> fst (ord ! Suc i) = H \<and>
        s = {snd (ord ! i), snd (ord ! Suc i)})"
    unfolding Bex_def by (simp add: less_diff_conv)
  finally show ?thesis .
qed


lemma straight_with_pos:
  assumes "straight_with d ord"
  shows "i < length ord \<Longrightarrow>
    snd (ord ! i) = (fst (snd (ord ! 0)) + int i * fst d, snd (snd (ord ! 0)) + int i * snd d)"
proof (induction i)
  case 0
  then show ?case by simp
next
  case (Suc i)
  then have "snd (ord ! Suc i) = (fst (snd (ord ! i)) + fst d, snd (snd (ord ! i)) + snd d)"
    using assms unfolding straight_with_def by auto
  with Suc show ?case by (simp add: algebra_simps)
qed

lemma straight_with_snoc:
  "straight_with d (ord @ [x]) \<longleftrightarrow>
     straight_with d ord \<and>
     (ord \<noteq> [] \<longrightarrow> snd x = (fst (snd (last ord)) + fst d, snd (snd (last ord)) + snd d))"
proof (cases "ord = []")
  case True
  then show ?thesis by (simp add: straight_with_def)
next
  case False
  then have l: "length ord - 1 < length ord" "Suc (length ord - 1) = length ord" by auto
  have "straight_with d (ord @ [x]) \<longleftrightarrow>
        (\<forall>i. i < length ord \<longrightarrow>
           snd ((ord @ [x]) ! Suc i)
             = (fst (snd ((ord @ [x]) ! i)) + fst d, snd (snd ((ord @ [x]) ! i)) + snd d))"
    by (auto simp: straight_with_def)
  also have "\<dots> \<longleftrightarrow> straight_with d ord \<and>
      snd x = (fst (snd (ord ! (length ord - 1))) + fst d,
               snd (snd (ord ! (length ord - 1))) + snd d)"
  proof
    assume h: "\<forall>i. i < length ord \<longrightarrow>
           snd ((ord @ [x]) ! Suc i)
             = (fst (snd ((ord @ [x]) ! i)) + fst d, snd (snd ((ord @ [x]) ! i)) + snd d)"
    have "straight_with d ord"
      unfolding straight_with_def
    proof
      fix i assume "i \<in> {0..<length ord - 1}"
      then have "i < length ord" "Suc i < length ord" by auto
      with h [rule_format, of i] show
        "snd (ord ! Suc i) = (fst (snd (ord ! i)) + fst d, snd (snd (ord ! i)) + snd d)"
        by (simp add: nth_append)
    qed
    moreover from h [rule_format, of "length ord - 1"] l
    have "snd x = (fst (snd (ord ! (length ord - 1))) + fst d,
               snd (snd (ord ! (length ord - 1))) + snd d)"
      by (simp add: nth_append)
    ultimately show "straight_with d ord \<and>
      snd x = (fst (snd (ord ! (length ord - 1))) + fst d,
               snd (snd (ord ! (length ord - 1))) + snd d)" by simp
  next
    assume h: "straight_with d ord \<and>
      snd x = (fst (snd (ord ! (length ord - 1))) + fst d,
               snd (snd (ord ! (length ord - 1))) + snd d)"
    show "\<forall>i. i < length ord \<longrightarrow>
           snd ((ord @ [x]) ! Suc i)
             = (fst (snd ((ord @ [x]) ! i)) + fst d, snd (snd ((ord @ [x]) ! i)) + snd d)"
    proof (intro allI impI)
      fix i assume i: "i < length ord"
      show "snd ((ord @ [x]) ! Suc i)
             = (fst (snd ((ord @ [x]) ! i)) + fst d, snd (snd ((ord @ [x]) ! i)) + snd d)"
      proof (cases "Suc i < length ord")
        case True
        then have "i \<in> {0..<length ord - 1}" by auto
        with h have "snd (ord ! Suc i) = (fst (snd (ord ! i)) + fst d, snd (snd (ord ! i)) + snd d)"
          unfolding straight_with_def by blast
        with True i show ?thesis by (simp add: nth_append)
      next
        case False
        with i have "i = length ord - 1" "Suc i = length ord" by auto
        with h i show ?thesis by (simp add: nth_append)
      qed
    qed
  qed
  finally show ?thesis using False by (simp add: last_conv_nth)
qed

lemma conformation_cell_lookup:
  assumes "conformation n g ord" "in_bounds n p" "grid_get g p = Acid a"
  shows "\<exists>i < length ord. ord ! i = (a, p)"
proof -
  have "grid_get g p \<noteq> Empty" using assms(3) by simp
  with assms(1,2) have "p \<in> snd ` set ord" unfolding conformation_def by blast
  then obtain x where x: "x \<in> set ord" "snd x = p" by auto
  with assms(1) have "grid_get g p = Acid (fst x)"
    unfolding conformation_def on_grid_def by auto
  with assms(3) have "fst x = a" by simp
  with x have "(a, p) \<in> set ord" by (cases x) auto
  then show ?thesis by (auto simp: in_set_conv_nth)
qed

lemma straight_adjacent_consecutive:
  assumes d: "d \<in> set [vec_up, vec_down, vec_left, vec_right]"
    and s: "straight_with d ord" and i: "i < length ord" and j: "j < length ord"
    and a: "adjacent (snd (ord ! j)) (snd (ord ! i))"
  shows "j = Suc i \<or> i = Suc j"
proof -
  note pi = straight_with_pos [OF s i] and pj = straight_with_pos [OF s j]
  from d a show ?thesis
    unfolding pi pj adjacent_def
    by (auto simp: vec_up_def vec_down_def vec_left_def vec_right_def)
qed

lemma straight_no_bonds:
  assumes c: "conformation n g ord" and l: "straight_line ord"
  shows "find_H_bonds g ord = {}"
proof -
  from l obtain d where d: "d \<in> set [vec_up, vec_down, vec_left, vec_right]"
    and s: "straight_with d ord"
    unfolding straight_line_def by blast
  have wf: "wf_grid n g" using c by (simp add: conformation_def)
  have "find_H_pairs_grid g \<subseteq> find_H_pairs_order ord"
  proof
    fix pr assume "pr \<in> find_H_pairs_grid g"
    then obtain row col q where h: "row < shape0 g" "col < shape1 g"
      "g ! row ! col = Acid H" "q \<in> set (neighbors (int row, int col))"
      "0 \<le> fst q" "fst q < int (shape0 g)" "0 \<le> snd q" "snd q < int (shape1 g)"
      "grid_get g q = Acid H" "pr = {(int row, int col), q}"
      unfolding in_find_H_pairs_grid in_cell_H_pairs by blast
    let ?p = "(int row, int col)"
    have "g \<noteq> []" using h(1) by (auto simp: shape0_def)
    then have sh: "shape0 g = n" "shape1 g = n"
      using wf by (cases g; auto simp: shape0_def shape1_def wf_grid_def)+
    have pb: "in_bounds n ?p" and qb: "in_bounds n q"
      using h sh by (simp_all add: in_bounds_def)
    have gp: "grid_get g ?p = Acid H" using h(3) by (simp add: grid_get_def)
    from conformation_cell_lookup [OF c pb gp] obtain i where
      i: "i < length ord" "ord ! i = (H, ?p)" by blast
    from conformation_cell_lookup [OF c qb h(9)] obtain j where
      j: "j < length ord" "ord ! j = (H, q)" by blast
    have "adjacent q ?p" using h(4) by (auto simp: neighbors_def adjacent_def)
    then have "adjacent (snd (ord ! j)) (snd (ord ! i))" using i j by simp
    from straight_adjacent_consecutive [OF d s i(1) j(1) this]
    show "pr \<in> find_H_pairs_order ord"
    proof
      assume "j = Suc i"
      with i j h(10) show ?thesis
        unfolding in_find_H_pairs_order by (intro exI [of _ i]) simp
    next
      assume "i = Suc j"
      with i j h(10) show ?thesis
        unfolding in_find_H_pairs_order by (intro exI [of _ j]) (simp add: insert_commute)
    qed
  qed
  then show ?thesis by (simp add: find_H_bonds_def)
qed


lemma directional_straight_run:
  assumes "straight_with vec_right ord" "ord \<noteq> []" "cur = snd (last ord)"
    "directional_loop (replicate k ''straight'') n g ord copy cur ''right'' = Inr (g', ord')"
  shows "straight_with vec_right ord'"
  using assms
proof (induction k arbitrary: g ord copy cur)
  case 0
  then show ?case by simp
next
  case (Suc k)
  let ?t = "(fst cur, snd cur + 1)"
  have step: "straight_with vec_right (ord @ [(a, ?t)])" for a
    using Suc.prems(1,2,3) by (simp add: straight_with_snoc vec_right_def)
  show ?case
  proof (cases "in_bounds n ?t \<and> grid_get g ?t = Empty")
    case False
    with Suc.prems show ?thesis
      by (auto simp: turn_orientation_def movement_vectors_def)
  next
    case True
    show ?thesis
    proof (cases copy)
      case Nil
      with True Suc.prems show ?thesis
        by (auto simp: turn_orientation_def movement_vectors_def)
    next
      case (Cons a rest)
      show ?thesis
      proof (cases "rest = []")
        case True
        with \<open>in_bounds n ?t \<and> grid_get g ?t = Empty\<close> Cons Suc.prems(4) step [of a]
        show ?thesis
          by (auto simp: turn_orientation_def movement_vectors_def)
      next
        case False
        with \<open>in_bounds n ?t \<and> grid_get g ?t = Empty\<close> Cons Suc.prems(4)
        have "directional_loop (replicate k ''straight'') n (grid_set g ?t (Acid a))
                (ord @ [(a, ?t)]) rest ?t ''right'' = Inr (g', ord')"
          by (auto simp: turn_orientation_def movement_vectors_def)
        from Suc.IH [OF step [of a] _ _ this] show ?thesis by simp
      qed
    qed
  qed
qed

lemma initialize_grid_directional_straight:
  assumes "initialize_grid_directional amino_acids (''Start'' # replicate k ''straight'')
             = Inr (g, ord)"
  shows "straight_line ord"
proof -
  let ?n = "length amino_acids * 2"
  let ?c = "(int (?n div 2), int (?n div 2))"
  from assms obtain a rest where aa: "amino_acids = a # rest"
    by (cases amino_acids) (auto simp: initialize_grid_directional_def)
  have cb: "in_bounds ?n ?c" using aa by (intro center_in_bounds) simp
  have set: "np_setitem (np_full ?n) ?c (Acid a) = Inr (grid_set (np_full ?n) ?c (Acid a))"
    using wf_np_full cb by (rule np_setitem_in_bounds)
  have one: "straight_with vec_right [(a, ?c)]" by (simp add: straight_with_def)
  have "straight_with vec_right ord"
  proof (cases "rest = []")
    case True
    with assms aa set one show ?thesis
      by (auto simp: initialize_grid_directional_def)
  next
    case False
    with assms aa set
    have "directional_loop (replicate k ''straight'') ?n (grid_set (np_full ?n) ?c (Acid a))
            [(a, ?c)] rest ?c ''right'' = Inr (g, ord)"
      by (auto simp: initialize_grid_directional_def)
    from directional_straight_run [OF one _ _ this] show ?thesis by simp
  qed
  then show ?thesis by (auto simp: straight_line_def)
qed

section \<open>Floating-point lemmas\<close>

































text \<open>
  The model agrees with the interpreter on quotients that are not representable:
  \<open>(1 / 3).as_integer_ratio()\<close> is \<open>(6004799503160661, 18014398509481984)\<close>,
  \<open>(1 / 10).as_integer_ratio()\<close> is \<open>(3602879701896397, 36028797018963968)\<close> and
  \<open>(100 / 7).as_integer_ratio()\<close> is \<open>(8042142191733029, 562949953421312)\<close>.
\<close>

lemma round_double_examples:
  "round_double 1 3 = 6004799503160661 / 18014398509481984"
  "round_double 2 3 = 6004799503160661 / 9007199254740992"
  "round_double 1 10 = 3602879701896397 / 36028797018963968"
  "round_double 100 7 = 8042142191733029 / 562949953421312"
  "round_double 3 4 = 3 / 4"
  by code_simp+

lemma true_divide_examples:
  "true_divide PyInt 1 3 = Inr (Finite (6004799503160661 / 18014398509481984))"
  "true_divide NpIntp 1 3 = Inr (Finite (6004799503160661 / 18014398509481984))"
  "true_divide PyInt 1 0 = Inl ZeroDivisionError"
  "true_divide NpIntp 1 0 = Inr Infinity"
  "true_divide NpIntp 0 0 = Inr NaN"
  by code_simp+

section \<open>Sample lemmas\<close>












section \<open>Backtracking engine lemmas\<close>

lemma conformation_unplace:
  assumes c: "conformation n g ord" and ne: "ord \<noteq> []"
  shows "conformation n (grid_set g (snd (last ord)) Empty) (butlast ord)"
proof -
  let ?p = "snd (last ord)"
  let ?g = "grid_set g ?p Empty"
  have split: "ord = butlast ord @ [last ord]" using ne by simp
  have wf: "wf_grid n g" using c by (simp add: conformation_def)
  have og: "on_grid n g ord" using c by (simp add: conformation_def)
  have pb: "in_bounds n ?p" using og ne by (simp add: on_grid_def)
  have "distinct (map snd (butlast ord @ [last ord]))"
    using c split by (simp add: conformation_def)
  then have fresh: "?p \<notin> snd ` set (butlast ord)" and d: "distinct (map snd (butlast ord))"
    by simp_all
  have 1: "wf_grid n ?g" using wf by (rule wf_grid_set)
  have 2: "on_grid n ?g (butlast ord)"
    unfolding on_grid_def
  proof
    fix x assume x: "x \<in> set (butlast ord)"
    then have "x \<in> set ord" by (rule in_set_butlastD)
    with og have xb: "in_bounds n (snd x)" "grid_get g (snd x) = Acid (fst x)"
      by (simp_all add: on_grid_def)
    from x have "snd x \<in> snd ` set (butlast ord)" by (rule imageI)
    with fresh have "snd x \<noteq> ?p" by metis
    with xb show "in_bounds n (snd x) \<and> grid_get ?g (snd x) = Acid (fst x)"
      by (simp add: get_grid_set [OF wf pb])
  qed
  have 3: "\<forall>q. in_bounds n q \<and> grid_get ?g q \<noteq> Empty \<longrightarrow> q \<in> snd ` set (butlast ord)"
  proof (intro allI impI)
    fix q assume h: "in_bounds n q \<and> grid_get ?g q \<noteq> Empty"
    then have neq: "q \<noteq> ?p" using get_grid_set [OF wf pb, of q Empty] by auto
    with h have "grid_get g q \<noteq> Empty" using get_grid_set [OF wf pb, of q Empty] by simp
    with h c have "q \<in> snd ` set ord" unfolding conformation_def by blast
    then have "q \<in> snd ` set (butlast ord @ [last ord])" using split by simp
    with neq show "q \<in> snd ` set (butlast ord)" by auto
  qed
  have "connected (butlast ord @ [last ord])" using c split by (simp add: conformation_def)
  then have 5: "connected (butlast ord)" by (simp add: connected_snoc)
  show ?thesis using 1 2 3 d 5 by (simp add: conformation_def)
qed

lemma grid_get_clear_fences:
  assumes "wf_grid n g" "in_bounds n p"
  shows "grid_get (clear_fences g) p = (if grid_get g p = Fence then Empty else grid_get g p)"
proof -
  have "nat (fst p) < length g" using assms by (auto simp: wf_grid_def in_bounds_def)
  moreover from this have "nat (snd p) < length (g ! nat (fst p))"
    using assms by (auto simp: wf_grid_def in_bounds_def)
  ultimately show ?thesis by (simp add: grid_get_def clear_fences_def)
qed

lemma conformation_clear_fences:
  assumes c: "conformation n g ord"
  shows "conformation n (clear_fences g) ord"
proof -
  have wf: "wf_grid n g" using c by (simp add: conformation_def)
  have 1: "wf_grid n (clear_fences g)" using wf by (auto simp: wf_grid_def clear_fences_def)
  have 2: "on_grid n (clear_fences g) ord"
    using c unfolding conformation_def on_grid_def
    by (auto simp: grid_get_clear_fences [OF wf])
  have 3: "\<forall>q. in_bounds n q \<and> grid_get (clear_fences g) q \<noteq> Empty \<longrightarrow> q \<in> snd ` set ord"
  proof (intro allI impI)
    fix q assume h: "in_bounds n q \<and> grid_get (clear_fences g) q \<noteq> Empty"
    then have "grid_get g q \<noteq> Empty"
      using grid_get_clear_fences [OF wf, of q] by (auto split: if_splits)
    with h c show "q \<in> snd ` set ord" unfolding conformation_def by blast
  qed
  show ?thesis using 1 2 3 c by (simp add: conformation_def)
qed

lemma single_has_neighbor:
  assumes c: "conformation n g [(a, p)]" and n: "2 \<le> n"
  shows "valid_neighbors n g p \<noteq> []"
proof -
  have pb: "in_bounds n p" using c by (simp add: conformation_def on_grid_def)
  define q where "q = (if 1 \<le> fst p then (fst p - 1, snd p) else (fst p + 1, snd p))"
  have qb: "in_bounds n q" and qn: "q \<in> set (neighbors p)" and qp: "q \<noteq> p"
    using pb n by (auto simp: q_def in_bounds_def neighbors_def prod_eq_iff)
  have "grid_get g q = Empty"
  proof (rule ccontr)
    assume "grid_get g q \<noteq> Empty"
    with qb c have "q \<in> snd ` set [(a, p)]" unfolding conformation_def by blast
    with qp show False by simp
  qed
  with qb qn have "q \<in> set (valid_neighbors n g p)" by (simp add: valid_neighbors_def)
  then show ?thesis by auto
qed


lemma conformation_length: "conformation n g ord \<Longrightarrow> length g = n"
  by (simp add: conformation_def wf_grid_def)

lemma place_amino_acid_result:
  assumes "conformation (length g) g ord" "2 \<le> length g"
    "case last_amino of None \<Rightarrow> ord = [] | Some p \<Rightarrow> ord \<noteq> [] \<and> p = snd (last ord)"
  shows "\<exists>bc' g' ord'.
           place_amino_acid rng k g copy ord bc last_amino wjb fl fences placed
             = Inr (True, bc', g', ord') \<and>
           conformation (length g) g' ord' \<and>
           length ord' + bc' = length ord + length copy + bc \<and>
           (ord \<noteq> [] \<longrightarrow> ord' \<noteq> [] \<and> hd ord' = hd ord) \<and>
           (ord = [] \<and> copy \<noteq> [] \<longrightarrow>
              ord' \<noteq> [] \<and> hd ord' = (hd copy, (int (length g div 2), int (length g div 2))))"
  using assms
proof (induction rng k g copy ord bc last_amino wjb fl fences placed
    rule: place_amino_acid.induct)
  case (1 rng k g copy ord bc last_amino wjb fl fences placed)
  let ?n = "length g"
  note conf = "1.prems"(1) and n2 = "1.prems"(2)
  have wf: "wf_grid ?n g" using conf by (simp add: conformation_def)
  show ?case
  proof (cases "copy = []")
    case True
    then have "place_amino_acid rng k g copy ord bc last_amino wjb fl fences placed
        = Inr (True, bc, g, ord)"
      by (subst place_amino_acid.simps) simp
    with conf True show ?thesis by simp
  next
    case False
    show ?thesis
    proof (cases last_amino)
      case None
      then have ord: "ord = []" using "1.prems"(3) by simp
      let ?c = "(int (?n div 2), int (?n div 2))"
      let ?a = "hd copy"
      let ?g1 = "grid_set g ?c (Acid ?a)"
      have cb: "in_bounds ?n ?c" using n2 by (simp add: in_bounds_def)
      have set: "np_setitem g ?c (Acid ?a) = Inr ?g1"
        using wf cb by (rule np_setitem_in_bounds)
      have empty: "grid_get g ?c = Empty"
        using conf cb ord by (simp add: conformation_empty_cell)
      have conf1: "conformation ?n ?g1 (ord @ [(?a, ?c)])"
        using conf cb empty ord by (intro conformation_place) simp_all
      have len1: "length ?g1 = ?n" using conf1 by (rule conformation_length)
      from "1.IH"(1) [OF False None set] conf1 n2 len1
      obtain bc' g' ord' where r:
        "place_amino_acid rng k ?g1 (tl copy) (ord @ [(?a, ?c)]) bc (Some ?c) wjb fl fences placed
           = Inr (True, bc', g', ord')"
        "conformation ?n g' ord'"
        "length ord' + bc' = length (ord @ [(?a, ?c)]) + length (tl copy) + bc"
        "ord' \<noteq> [] \<and> hd ord' = hd (ord @ [(?a, ?c)])"
        by auto
      have "place_amino_acid rng k g copy ord bc last_amino wjb fl fences placed
          = Inr (True, bc', g', ord')"
        using False None set r(1) by (subst place_amino_acid.simps) simp
      moreover have "length ord' + bc' = length ord + length copy + bc"
        using r(3) False by (cases copy) auto
      ultimately show ?thesis using r(2,4) ord by simp
    next
      case (Some p)
      then have ne: "ord \<noteq> []" and p: "p = snd (last ord)" using "1.prems"(3) by simp_all
      have pb: "in_bounds ?n p"
        using conf ne p by (simp add: conformation_def on_grid_def)
      let ?valid = "valid_neighbors ?n g p"
      show ?thesis
      proof (cases "0 < length ?valid")
        case True
        let ?q = "shuffle_first (rng k) ?valid"
        let ?a = "hd copy"
        let ?g1 = "grid_set g ?q (Acid ?a)"
        have q: "?q \<in> set ?valid" using True by (simp add: shuffle_first_mem)
        have conf1: "conformation ?n ?g1 (ord @ [(?a, ?q)])"
          using conf valid_neighbors_props [OF q] p by (intro conformation_place) simp_all
        have len1: "length ?g1 = ?n" using conf1 by (rule conformation_length)
        from "1.IH"(2) [OF False Some True] conf1 n2 len1
        obtain bc' g' ord' where r:
          "place_amino_acid rng (Suc k) ?g1 (tl copy) (ord @ [(?a, ?q)]) bc (Some ?q) 0 fl fences
             (placed + 1) = Inr (True, bc', g', ord')"
          "conformation ?n g' ord'"
          "length ord' + bc' = length (ord @ [(?a, ?q)]) + length (tl copy) + bc"
          "ord' \<noteq> [] \<and> hd ord' = hd (ord @ [(?a, ?q)])"
          by auto
        have "place_amino_acid rng k g copy ord bc last_amino wjb fl fences placed
            = Inr (True, bc', g', ord')"
          using False Some True r(1) by (subst place_amino_acid.simps) simp
        moreover have "length ord' + bc' = length ord + length copy + bc"
          using r(3) False by (cases copy) auto
        ultimately show ?thesis using r(2,4) ne by simp
      next
        case dead: False
        let ?g1 = "grid_set g p Empty"
        let ?g2 = "if placed > fences then clear_fences ?g1 else ?g1"
        have set: "np_setitem g p Empty = Inr ?g1"
          using wf pb by (rule np_setitem_in_bounds)
        have more: "butlast ord \<noteq> []"
        proof
          assume "butlast ord = []"
          with ne have "ord = [(fst (last ord), p)]"
            using p by (metis append_butlast_last_id append_Nil prod.collapse)
          with conf have "conformation ?n g [(fst (last ord), p)]" by simp
          from single_has_neighbor [OF this n2] dead show False by simp
        qed
        have "conformation ?n ?g1 (butlast ord)"
          using conformation_unplace [OF conf ne] p by simp
        then have conf2: "conformation ?n ?g2 (butlast ord)"
          by (simp add: conformation_clear_fences)
        have len2: "length ?g2 = ?n" using conf2 by (rule conformation_length)
        have last2: "butlast ord \<noteq> [] \<and> snd (last (butlast ord)) = snd (last (butlast ord))"
          using more by simp
        from "1.IH"(3) [OF False Some dead set ne more] conf2 n2 len2 more
        obtain bc' g' ord' where r:
          "place_amino_acid rng (Suc k) ?g2 copy (butlast ord) (bc + 1)
             (Some (snd (last (butlast ord)))) 1 (fl + 1)
             (if placed > fences then 0 else fences) 0 = Inr (True, bc', g', ord')"
          "conformation ?n g' ord'"
          "length ord' + bc' = length (butlast ord) + length copy + (bc + 1)"
          "ord' \<noteq> [] \<and> hd ord' = hd (butlast ord)"
          by auto
        have "place_amino_acid rng k g copy ord bc last_amino wjb fl fences placed
            = Inr (True, bc', g', ord')"
          using False Some dead set ne more r(1) by (subst place_amino_acid.simps) simp
        moreover have "length ord' + bc' = length ord + length copy + bc"
          using r(3) ne by (cases ord rule: rev_cases) auto
        moreover have "hd (butlast ord) = hd ord"
          using more by (cases ord) auto
        ultimately show ?thesis using r(2,4) ne by simp
      qed
    qed
  qed
qed

text \<open>
  What the backtracking engine does on the lattice \<open>initialize_grid\<close> gives it: for every
  non-empty chain and all draws it terminates with the success flag set, the order it
  returns is self-avoiding and connected and starts at the center, and the order holds
  as many residues as the chain minus the number of backtracks.
\<close>

lemma place_amino_acid_from_empty:
  assumes "amino_acids \<noteq> []"
  shows "\<exists>bc g ord.
           place_amino_acid rng 0 (np_full (length amino_acids * 2)) amino_acids [] 0 None 0 0 0 0
             = Inr (True, bc, g, ord) \<and>
           conformation (length amino_acids * 2) g ord \<and>
           length ord + bc = length amino_acids \<and>
           ord \<noteq> [] \<and>
           hd ord = (hd amino_acids, (int (length amino_acids), int (length amino_acids)))"
proof -
  let ?n = "length amino_acids * 2"
  have len: "length (np_full ?n) = ?n" by (simp add: np_full_def)
  have c: "conformation (length (np_full ?n)) (np_full ?n) []"
    unfolding len by (rule conformation_empty)
  have n2: "2 \<le> length (np_full ?n)" using assms unfolding len by (cases amino_acids) auto
  from place_amino_acid_result [OF c n2, of None rng 0 amino_acids 0 0 0 0 0] assms
  show ?thesis unfolding len by auto
qed

lemma generate_random_directions_shape:
  "generate_random_directions rng n \<noteq> [] \<and>
   hd (generate_random_directions rng n) = ''Start'' \<and>
   ''Start'' \<notin> set (tl (generate_random_directions rng n)) \<and>
   set (tl (generate_random_directions rng n)) \<subseteq> {''left'', ''straight'', ''right''} \<and>
   length (generate_random_directions rng n) = max 2 n"
proof -
  let ?pick = "\<lambda>i. [''left'', ''straight'', ''right''] ! (rng i mod 3)"
  have pick: "?pick i \<in> {''left'', ''straight'', ''right''}" for i
  proof -
    have "rng i mod 3 = 0 \<or> rng i mod 3 = 1 \<or> rng i mod 3 = 2" by arith
    then show ?thesis by auto
  qed
  have tl: "tl (generate_random_directions rng n) = ''straight'' # map ?pick [2..<n]"
    by (simp add: generate_random_directions_def)
  have sub: "set (map ?pick [2..<n]) \<subseteq> {''left'', ''straight'', ''right''}"
    using pick by auto
  then have "''Start'' \<notin> set (map ?pick [2..<n])" by auto
  with sub show ?thesis
    unfolding tl by (auto simp: generate_random_directions_def)
qed

section \<open>Properties of the direction model\<close>

text \<open>
  C4 (round trip). Take a three-residue prefix whose first move is the move of orientation
  \<open>ori\<close>, apply a turn \<open>t\<close> out of left, straight, right the way the placement loop does
  (\<open>get_new_orientation\<close>, orientation unchanged on straight) and take one step along
  the new orientation. Then \<open>determine_directions\<close> classifies that step as \<open>t\<close>.
\<close>

theorem direction_round_trip:
  "ori \<in> {''up'', ''down'', ''left'', ''right''} \<Longrightarrow>
   t \<in> {''left'', ''straight'', ''right''} \<Longrightarrow>
   \<exists>ori' v v'. turn_orientation ori t = Some ori' \<and>
     movement_vectors ori = Some v \<and> movement_vectors ori' = Some v' \<and>
     determine_directions
       [(a0, (r, c)), (a1, (r + fst v, c + snd v)),
        (a2, (r + fst v + fst v', c + snd v + snd v'))] = [''Start'', ''straight'', t]"
  by (auto simp: turn_orientation_def get_new_orientation_def movement_vectors_def
      determine_directions_def classify_move_def vec_up_def vec_down_def vec_left_def
      vec_right_def upt_rec numeral_eq_Suc)

theorem direction_round_trip_witness:
  "''down'' \<in> {''up'', ''down'', ''left'', ''right''} \<and>
   ''left'' \<in> {''left'', ''straight'', ''right''} \<and>
   turn_orientation ''down'' ''left'' = Some ''right'' \<and>
   determine_directions [(H, (5, 5)), (P, (6, 5)), (H, (6, 6))] = [''Start'', ''straight'', ''left'']"
  using direction_round_trip [of "''down''" "''left''" H 5 5 P H]
  by (simp add: turn_orientation_def get_new_orientation_def movement_vectors_def)

text \<open>
  C8, as the code has it. For each of the four orientations and each of the three turns the
  call site yields one of the four orientations (the twelve cases are listed). The turn
  \<open>'right'\<close> is not tested for: every turn string other than \<open>'left'\<close> and \<open>'straight'\<close>
  goes through the same \<open>else\<close> branch and is rotated like \<open>'right'\<close>. The chain over
  the orientations has no such branch: for a string that is none of the four orientations
  \<open>get_new_orientation\<close> returns \<open>None\<close>.
\<close>

theorem turn_orientation_table:
  "(turn_orientation ''up'' ''left'' = Some ''left'' \<and>
    turn_orientation ''up'' ''straight'' = Some ''up'' \<and>
    turn_orientation ''up'' ''right'' = Some ''right'' \<and>
    turn_orientation ''down'' ''left'' = Some ''right'' \<and>
    turn_orientation ''down'' ''straight'' = Some ''down'' \<and>
    turn_orientation ''down'' ''right'' = Some ''left'' \<and>
    turn_orientation ''left'' ''left'' = Some ''down'' \<and>
    turn_orientation ''left'' ''straight'' = Some ''left'' \<and>
    turn_orientation ''left'' ''right'' = Some ''up'' \<and>
    turn_orientation ''right'' ''left'' = Some ''up'' \<and>
    turn_orientation ''right'' ''straight'' = Some ''right'' \<and>
    turn_orientation ''right'' ''right'' = Some ''down'') \<and>
   (\<forall>ori t. t \<noteq> ''left'' \<and> t \<noteq> ''straight'' \<longrightarrow>
      turn_orientation ori t = turn_orientation ori ''right'') \<and>
   (\<forall>ori t. \<not> is_orientation ori \<longrightarrow> get_new_orientation ori t = None)"
  by (simp add: turn_orientation_def get_new_orientation_def is_orientation_def)

theorem turn_orientation_table_witness:
  "''Right'' \<noteq> ''left'' \<and> ''Right'' \<noteq> ''straight'' \<and>
   turn_orientation ''left'' ''Right'' = Some ''up'' \<and>
   \<not> is_orientation ''north'' \<and> get_new_orientation ''north'' ''left'' = None"
proof -
  have n: "\<not> is_orientation ''north''" by (simp add: is_orientation_def)
  from turn_orientation_table [THEN conjunct2, THEN conjunct1, rule_format,
      of "''Right''" "''left''"]
  have a: "turn_orientation ''left'' ''Right'' = turn_orientation ''left'' ''right''"
    by simp
  from turn_orientation_table [THEN conjunct2, THEN conjunct2, rule_format,
      of "''north''" "''left''"] n
  have b: "get_new_orientation ''north'' ''left'' = None" by simp
  show ?thesis
    using a b n by (simp add: turn_orientation_def get_new_orientation_def)
qed

theorem turn_catch_all_counterexample:
  "''back'' \<notin> {''left'', ''straight'', ''right''} \<and>
   turn_orientation ''up'' ''back'' = Some ''right''"
  by (simp add: turn_orientation_def get_new_orientation_def)

section \<open>Properties of the placement engines\<close>

text \<open>
  C1 (self-avoidance). In every placement order returned by the stochastic engine, and in
  every placement order returned by the directional engine for a turn sequence that has
  \<open>'Start'\<close> nowhere after its first entry, no two entries have the same position. Every
  turn sequence that \<open>generate_random_directions\<close> builds is of that kind.
\<close>

theorem self_avoiding:
  "(initialize_grid rng amino_acids = Inr (g, ord) \<longrightarrow> distinct (map snd ord)) \<and>
   (''Start'' \<notin> set (tl directions) \<and>
    initialize_grid_directional amino_acids directions = Inr (g', ord') \<longrightarrow>
      distinct (map snd ord')) \<and>
   (initialize_grid_directional amino_acids (generate_random_directions rng' m) = Inr (g'', ord'')
      \<longrightarrow> distinct (map snd ord''))"
proof -
  have dir: "distinct (map snd po)"
    if "''Start'' \<notin> set (tl ds)" "initialize_grid_directional amino_acids ds = Inr (gr, po)"
    for ds gr po
  proof (cases "amino_acids = []")
    case True
    with that initialize_grid_directional_no_residues [of ds gr po] show ?thesis
      by simp
  next
    case False
    from initialize_grid_directional_result [OF False that(1)] that(2) show ?thesis
      by (auto simp: conformation_def)
  qed
  show ?thesis
  proof (intro conjI impI)
    assume r: "initialize_grid rng amino_acids = Inr (g, ord)"
    then have "amino_acids \<noteq> []" by (auto simp: initialize_grid_def)
    from initialize_grid_result [OF this, of rng] r show "distinct (map snd ord)"
      by (auto simp: conformation_def)
  next
    assume "''Start'' \<notin> set (tl directions) \<and>
      initialize_grid_directional amino_acids directions = Inr (g', ord')"
    then show "distinct (map snd ord')" using dir by blast
  next
    assume "initialize_grid_directional amino_acids (generate_random_directions rng' m)
      = Inr (g'', ord'')"
    with generate_random_directions_shape [of rng' m] show "distinct (map snd ord'')"
      using dir by blast
  qed
qed

theorem self_avoiding_witness:
  "map_sum id snd (initialize_grid (draws [1, 0, 1, 1]) [P, H, P, H, H])
     = Inr [(P, (5, 5)), (H, (6, 5)), (P, (7, 5)), (H, (7, 4)), (H, (8, 4))] \<and>
   distinct (map snd [(P, (5::int, 5::int)), (H, (6, 5)), (P, (7, 5)), (H, (7, 4)), (H, (8, 4))]) \<and>
   generate_random_directions (draws [0, 0, 2, 0]) 4 = [''Start'', ''straight'', ''right'', ''left''] \<and>
   ''Start'' \<notin> set (tl [''Start'', ''straight'', ''right'', ''left'']) \<and>
   map_sum id snd
     (initialize_grid_directional [H, P, P, H] [''Start'', ''straight'', ''right'', ''left''])
     = Inr [(H, (4, 4)), (P, (4, 5)), (P, (5, 5)), (H, (5, 6))] \<and>
   distinct (map snd [(H, (4::int, 4::int)), (P, (4, 5)), (P, (5, 5)), (H, (5, 6))])"
proof -
  let ?o1 = "[(P, (5, 5)), (H, (6, 5)), (P, (7, 5)), (H, (7, 4)), (H, (8::int, 4::int))]"
  let ?o2 = "[(H, (4, 4)), (P, (4, 5)), (P, (5, 5)), (H, (5::int, 6::int))]"
  let ?ds = "[''Start'', ''straight'', ''right'', ''left'']"
  have e1: "map_sum id snd (initialize_grid (draws [1, 0, 1, 1]) [P, H, P, H, H]) = Inr ?o1"
    by code_simp
  then obtain g where 1: "initialize_grid (draws [1, 0, 1, 1]) [P, H, P, H, H] = Inr (g, ?o1)"
    by (cases "initialize_grid (draws [1, 0, 1, 1]) [P, H, P, H, H]") auto
  have gen: "generate_random_directions (draws [0, 0, 2, 0]) 4 = ?ds" by code_simp
  have e2: "map_sum id snd (initialize_grid_directional [H, P, P, H] ?ds) = Inr ?o2"
    by code_simp
  then obtain g' where 2: "initialize_grid_directional [H, P, P, H] ?ds = Inr (g', ?o2)"
    by (cases "initialize_grid_directional [H, P, P, H] ?ds") auto
  have 3: "''Start'' \<notin> set (tl ?ds)" by simp
  from self_avoiding [where rng = "draws [1, 0, 1, 1]" and amino_acids = "[P, H, P, H, H]"
      and g = g and ord = ?o1] 1
  have d1: "distinct (map snd ?o1)" by blast
  from self_avoiding [where amino_acids = "[H, P, P, H]" and directions = ?ds
      and g' = g' and ord' = ?o2 and rng' = "draws [0, 0, 2, 0]" and m = 4 and g'' = g'
      and ord'' = ?o2] 2 3 gen
  have d2: "distinct (map snd ?o2)" by simp
  show ?thesis using e1 e2 3 d1 d2 gen by simp
qed

text \<open>
  C2 (chain connectivity). In every returned placement order, of either engine and under the
  same condition on the turn sequence, the position of entry \<open>i > 0\<close> is at Manhattan
  distance one from the position of entry \<open>i - 1\<close>.
\<close>

theorem chain_connectivity:
  "(initialize_grid rng amino_acids = Inr (g, ord) \<longrightarrow>
      (\<forall>i. 0 < i \<and> i < length ord \<longrightarrow> adjacent (snd (ord ! i)) (snd (ord ! (i - 1))))) \<and>
   (''Start'' \<notin> set (tl directions) \<and>
    initialize_grid_directional amino_acids directions = Inr (g', ord') \<longrightarrow>
      (\<forall>i. 0 < i \<and> i < length ord' \<longrightarrow> adjacent (snd (ord' ! i)) (snd (ord' ! (i - 1))))) \<and>
   (initialize_grid_directional amino_acids (generate_random_directions rng' m) = Inr (g'', ord'')
      \<longrightarrow> (\<forall>i. 0 < i \<and> i < length ord'' \<longrightarrow>
             adjacent (snd (ord'' ! i)) (snd (ord'' ! (i - 1)))))"
proof -
  have dir: "connected po"
    if "''Start'' \<notin> set (tl ds)" "initialize_grid_directional amino_acids ds = Inr (gr, po)"
    for ds gr po
  proof (cases "amino_acids = []")
    case True
    with that initialize_grid_directional_no_residues [of ds gr po] show ?thesis
      by (simp add: connected_def)
  next
    case False
    from initialize_grid_directional_result [OF False that(1)] that(2) show ?thesis
      by (auto simp: conformation_def)
  qed
  show ?thesis
  proof (intro conjI impI)
    assume r: "initialize_grid rng amino_acids = Inr (g, ord)"
    then have "amino_acids \<noteq> []" by (auto simp: initialize_grid_def)
    from initialize_grid_result [OF this, of rng] r have "connected ord"
      by (auto simp: conformation_def)
    then show "\<forall>i. 0 < i \<and> i < length ord \<longrightarrow> adjacent (snd (ord ! i)) (snd (ord ! (i - 1)))"
      by (simp add: connected_def)
  next
    assume "''Start'' \<notin> set (tl directions) \<and>
      initialize_grid_directional amino_acids directions = Inr (g', ord')"
    then have "connected ord'" using dir by blast
    then show "\<forall>i. 0 < i \<and> i < length ord' \<longrightarrow> adjacent (snd (ord' ! i)) (snd (ord' ! (i - 1)))"
      by (simp add: connected_def)
  next
    assume "initialize_grid_directional amino_acids (generate_random_directions rng' m)
      = Inr (g'', ord'')"
    with generate_random_directions_shape [of rng' m] have "connected ord''"
      using dir by blast
    then show "\<forall>i. 0 < i \<and> i < length ord'' \<longrightarrow>
        adjacent (snd (ord'' ! i)) (snd (ord'' ! (i - 1)))"
      by (simp add: connected_def)
  qed
qed

theorem chain_connectivity_witness:
  "map_sum id snd (initialize_grid (draws [1, 0, 1, 1]) [P, H, P, H, H])
     = Inr [(P, (5, 5)), (H, (6, 5)), (P, (7, 5)), (H, (7, 4)), (H, (8, 4))] \<and>
   adjacent (7, 4) (7, 5) \<and>
   generate_random_directions (draws [0, 0, 2, 0]) 4 = [''Start'', ''straight'', ''right'', ''left''] \<and>
   ''Start'' \<notin> set (tl [''Start'', ''straight'', ''right'', ''left'']) \<and>
   map_sum id snd
     (initialize_grid_directional [H, P, P, H] [''Start'', ''straight'', ''right'', ''left''])
     = Inr [(H, (4, 4)), (P, (4, 5)), (P, (5, 5)), (H, (5, 6))] \<and>
   adjacent (5, 5) (4, 5) \<and> adjacent (5, 6) (5, 5)"
proof -
  let ?o1 = "[(P, (5, 5)), (H, (6, 5)), (P, (7, 5)), (H, (7, 4)), (H, (8::int, 4::int))]"
  let ?o2 = "[(H, (4, 4)), (P, (4, 5)), (P, (5, 5)), (H, (5::int, 6::int))]"
  let ?ds = "[''Start'', ''straight'', ''right'', ''left'']"
  have e1: "map_sum id snd (initialize_grid (draws [1, 0, 1, 1]) [P, H, P, H, H]) = Inr ?o1"
    by code_simp
  then obtain g where 1: "initialize_grid (draws [1, 0, 1, 1]) [P, H, P, H, H] = Inr (g, ?o1)"
    by (cases "initialize_grid (draws [1, 0, 1, 1]) [P, H, P, H, H]") auto
  have gen: "generate_random_directions (draws [0, 0, 2, 0]) 4 = ?ds" by code_simp
  have e2: "map_sum id snd (initialize_grid_directional [H, P, P, H] ?ds) = Inr ?o2"
    by code_simp
  then obtain g' where 2: "initialize_grid_directional [H, P, P, H] ?ds = Inr (g', ?o2)"
    by (cases "initialize_grid_directional [H, P, P, H] ?ds") auto
  have 3: "''Start'' \<notin> set (tl ?ds)" by simp
  note a = chain_connectivity [THEN conjunct1, rule_format]
  note b = chain_connectivity [THEN conjunct2, THEN conjunct1, rule_format]
  note c = chain_connectivity [THEN conjunct2, THEN conjunct2, rule_format]
  from a [of "draws [1, 0, 1, 1]" "[P, H, P, H, H]" g ?o1 3] 1
  have a1: "adjacent (7, 4) (7, 5)" by simp
  from b [of ?ds "[H, P, P, H]" g' ?o2 2] 2 3
  have a2: "adjacent (5, 5) (4, 5)" by simp
  from c [of "[H, P, P, H]" "draws [0, 0, 2, 0]" 4 g' ?o2 3] 2 gen
  have a3: "adjacent (5, 6) (5, 5)" by simp
  show ?thesis using e1 e2 3 a1 a2 a3 gen by simp
qed

text \<open>
  C5. For a chain of length \<open>L \<ge> 1\<close> and any random draws, \<open>initialize_grid\<close> returns
  (it raises nothing) a lattice of \<open>2L\<close> rows and columns and a placement order of length
  between 1 and \<open>L\<close> whose first entry is at \<open>(grid_size // 2, grid_size // 2) = (L, L)\<close>;
  for a chain of length 5 the lattice is 10 by 10 and the first placement is at (5, 5).
\<close>

theorem stochastic_length_and_start:
  "amino_acids \<noteq> [] \<Longrightarrow>
   \<exists>g ord. initialize_grid rng amino_acids = Inr (g, ord) \<and>
     1 \<le> length ord \<and> length ord \<le> length amino_acids \<and>
     shape0 g = length amino_acids * 2 \<and> shape1 g = length amino_acids * 2 \<and>
     snd (ord ! 0) = (int (length amino_acids * 2 div 2), int (length amino_acids * 2 div 2)) \<and>
     snd (ord ! 0) = (int (length amino_acids), int (length amino_acids)) \<and>
     (length amino_acids = 5 \<longrightarrow> shape0 g = 10 \<and> shape1 g = 10 \<and> snd (ord ! 0) = (5, 5))"
proof -
  assume ne: "amino_acids \<noteq> []"
  from initialize_grid_result [OF ne, of rng] obtain g ord where r:
    "initialize_grid rng amino_acids = Inr (g, ord)"
    "conformation (length amino_acids * 2) g ord" "ord \<noteq> []"
    "snd (hd ord) = (int (length amino_acids), int (length amino_acids))"
    "length ord \<le> length amino_acids"
    by blast
  have wf: "wf_grid (length amino_acids * 2) g" using r(2) by (simp add: conformation_def)
  then have s0: "shape0 g = length amino_acids * 2" by (simp add: shape0_def wf_grid_def)
  have "g \<noteq> []" using wf ne by (auto simp: wf_grid_def)
  then have s1: "shape1 g = length amino_acids * 2"
    using wf by (cases g) (auto simp: shape1_def wf_grid_def)
  have "1 \<le> length ord" using r(3) by (cases ord) auto
  moreover have "snd (ord ! 0) = (int (length amino_acids), int (length amino_acids))"
    using r(3,4) by (simp add: hd_conv_nth)
  ultimately show ?thesis
    using r(1,5) s0 s1 by (intro exI [of _ g] exI [of _ ord]) auto
qed

theorem stochastic_length_and_start_witness:
  "[H, H, P, P, H] \<noteq> [] \<and>
   map_sum id snd (initialize_grid (draws [1, 0, 1, 1]) [H, H, P, P, H])
     = Inr [(H, (5, 5)), (H, (6, 5)), (P, (7, 5)), (P, (7, 4)), (H, (8, 4))] \<and>
   length [(H, (5::int, 5::int)), (H, (6, 5)), (P, (7, 5)), (P, (7, 4)), (H, (8, 4))] \<le> length [H, H, P, P, H] \<and>
   snd ([(H, (5::int, 5::int)), (H, (6, 5)), (P, (7, 5)), (P, (7, 4)), (H, (8, 4))] ! 0) = (5, 5)"
proof -
  let ?o = "[(H, (5, 5)), (H, (6, 5)), (P, (7, 5)), (P, (7, 4)), (H, (8::int, 4::int))]"
  have e: "map_sum id snd (initialize_grid (draws [1, 0, 1, 1]) [H, H, P, P, H]) = Inr ?o"
    by code_simp
  have ne: "[H, H, P, P, H] \<noteq> []" by simp
  from stochastic_length_and_start [OF ne, of "draws [1, 0, 1, 1]"] obtain g ord where r:
    "initialize_grid (draws [1, 0, 1, 1]) [H, H, P, P, H] = Inr (g, ord)"
    "length ord \<le> length [H, H, P, P, H]" "snd (ord ! 0) = (5, 5)"
    by auto
  from r(1) e have "ord = ?o" by simp
  with r(2,3) e ne show ?thesis by simp
qed

text \<open>
  C9, as the code has it. Both engines run on a lattice of \<open>2L\<close> rows and columns and put
  the first residue at \<open>(L, L)\<close> (the directional engine when its turn sequence starts
  with \<open>'Start'\<close> and has no later \<open>'Start'\<close>). Every placement has row and column index
  between 1 and \<open>2L - 1\<close>: the walk never leaves the lattice and never reaches row or
  column 0. Row and column \<open>2L - 1\<close>, the last ones, can be reached: a straight walk of
  five residues from (5, 5) ends in column 9 (directional) or row 9 (stochastic) of the
  10 by 10 lattice.
\<close>

theorem placements_inside_lattice:
  "(initialize_grid rng amino_acids = Inr (g, ord) \<longrightarrow>
      shape0 g = length amino_acids * 2 \<and> shape1 g = length amino_acids * 2 \<and>
      snd (ord ! 0) = (int (length amino_acids), int (length amino_acids)) \<and>
      (\<forall>x \<in> set ord.
         1 \<le> fst (snd x) \<and> fst (snd x) \<le> 2 * int (length amino_acids) - 1 \<and>
         1 \<le> snd (snd x) \<and> snd (snd x) \<le> 2 * int (length amino_acids) - 1)) \<and>
   (directions \<noteq> [] \<and> hd directions = ''Start'' \<and> ''Start'' \<notin> set (tl directions) \<and>
    initialize_grid_directional amino_acids directions = Inr (g', ord') \<longrightarrow>
      shape0 g' = length amino_acids * 2 \<and> shape1 g' = length amino_acids * 2 \<and>
      snd (ord' ! 0) = (int (length amino_acids), int (length amino_acids)) \<and>
      (\<forall>x \<in> set ord'.
         1 \<le> fst (snd x) \<and> fst (snd x) \<le> 2 * int (length amino_acids) - 1 \<and>
         1 \<le> snd (snd x) \<and> snd (snd x) \<le> 2 * int (length amino_acids) - 1))"
proof -
  let ?L = "length amino_acids"
  have shape: "shape0 gr = ?L * 2 \<and> shape1 gr = ?L * 2"
    if "conformation (?L * 2) gr po" "amino_acids \<noteq> []" for gr po
  proof -
    have wf: "wf_grid (?L * 2) gr" using that(1) by (simp add: conformation_def)
    then have "gr \<noteq> []" using that(2) by (auto simp: wf_grid_def)
    then show ?thesis using wf by (cases gr) (auto simp: shape0_def shape1_def wf_grid_def)
  qed
  have inside: "\<forall>x \<in> set po.
         1 \<le> fst (snd x) \<and> fst (snd x) \<le> 2 * int ?L - 1 \<and>
         1 \<le> snd (snd x) \<and> snd (snd x) \<le> 2 * int ?L - 1"
    if "conformation (?L * 2) gr po" "snd (hd po) = (int ?L, int ?L)" "length po \<le> ?L" for gr po
    using that placement_inside [of po ?L] by (simp add: conformation_def)
  show ?thesis
  proof (intro conjI impI)
    assume r: "initialize_grid rng amino_acids = Inr (g, ord)"
    then have ne: "amino_acids \<noteq> []" by (auto simp: initialize_grid_def)
    from initialize_grid_result [OF ne, of rng] r
    have c: "conformation (?L * 2) g ord" "ord \<noteq> []" "snd (hd ord) = (int ?L, int ?L)"
      "length ord \<le> ?L"
      by auto
    show "shape0 g = ?L * 2" "shape1 g = ?L * 2" using shape [OF c(1) ne] by simp_all
    show "snd (ord ! 0) = (int ?L, int ?L)" using c(2,3) by (simp add: hd_conv_nth)
    show "\<forall>x \<in> set ord.
         1 \<le> fst (snd x) \<and> fst (snd x) \<le> 2 * int ?L - 1 \<and>
         1 \<le> snd (snd x) \<and> snd (snd x) \<le> 2 * int ?L - 1"
      using inside [OF c(1,3,4)] .
  next
    assume r: "directions \<noteq> [] \<and> hd directions = ''Start'' \<and> ''Start'' \<notin> set (tl directions) \<and>
      initialize_grid_directional amino_acids directions = Inr (g', ord')"
    then obtain ds where ds: "directions = ''Start'' # ds" by (cases directions) auto
    have ne: "amino_acids \<noteq> []"
      using r ds initialize_grid_directional_start_empty [of ds] by auto
    from r have ns: "''Start'' \<notin> set (tl directions)" by simp
    from initialize_grid_directional_result [OF ne ns] r
    have c: "conformation (?L * 2) g' ord'" "ord' \<noteq> []" "snd (hd ord') = (int ?L, int ?L)"
      "length ord' \<le> ?L"
      by auto
    show "shape0 g' = ?L * 2" "shape1 g' = ?L * 2" using shape [OF c(1) ne] by simp_all
    show "snd (ord' ! 0) = (int ?L, int ?L)" using c(2,3) by (simp add: hd_conv_nth)
    show "\<forall>x \<in> set ord'.
         1 \<le> fst (snd x) \<and> fst (snd x) \<le> 2 * int ?L - 1 \<and>
         1 \<le> snd (snd x) \<and> snd (snd x) \<le> 2 * int ?L - 1"
      using inside [OF c(1,3,4)] .
  qed
qed

theorem placements_inside_lattice_witness:
  "map_sum id snd (initialize_grid (draws [1, 0, 1, 1]) [P, H, P, H, H])
     = Inr [(P, (5, 5)), (H, (6, 5)), (P, (7, 5)), (H, (7, 4)), (H, (8, 4))] \<and>
   (1::int) \<le> 8 \<and> (8::int) \<le> 2 * int (length [P, H, P, H, H]) - 1 \<and>
   [''Start'', ''straight'', ''right'', ''left''] \<noteq> [] \<and>
   hd [''Start'', ''straight'', ''right'', ''left''] = ''Start'' \<and>
   ''Start'' \<notin> set (tl [''Start'', ''straight'', ''right'', ''left'']) \<and>
   map_sum id snd
     (initialize_grid_directional [H, P, P, H] [''Start'', ''straight'', ''right'', ''left''])
     = Inr [(H, (4, 4)), (P, (4, 5)), (P, (5, 5)), (H, (5, 6))] \<and>
   (1::int) \<le> 6 \<and> (6::int) \<le> 2 * int (length [H, P, P, H]) - 1"
proof -
  let ?o1 = "[(P, (5, 5)), (H, (6, 5)), (P, (7, 5)), (H, (7, 4)), (H, (8::int, 4::int))]"
  let ?o2 = "[(H, (4, 4)), (P, (4, 5)), (P, (5, 5)), (H, (5::int, 6::int))]"
  let ?ds = "[''Start'', ''straight'', ''right'', ''left'']"
  have e1: "map_sum id snd (initialize_grid (draws [1, 0, 1, 1]) [P, H, P, H, H]) = Inr ?o1"
    by code_simp
  then obtain g where 1: "initialize_grid (draws [1, 0, 1, 1]) [P, H, P, H, H] = Inr (g, ?o1)"
    by (cases "initialize_grid (draws [1, 0, 1, 1]) [P, H, P, H, H]") auto
  have e2: "map_sum id snd (initialize_grid_directional [H, P, P, H] ?ds) = Inr ?o2"
    by code_simp
  then obtain g' where 2: "initialize_grid_directional [H, P, P, H] ?ds = Inr (g', ?o2)"
    by (cases "initialize_grid_directional [H, P, P, H] ?ds") auto
  have 3: "?ds \<noteq> []" "hd ?ds = ''Start''" "''Start'' \<notin> set (tl ?ds)" by simp_all
  from placements_inside_lattice [where rng = "draws [1, 0, 1, 1]"
      and amino_acids = "[P, H, P, H, H]" and g = g and ord = ?o1] 1
  have "\<forall>x \<in> set ?o1.
         1 \<le> fst (snd x) \<and> fst (snd x) \<le> 2 * int (length [P, H, P, H, H]) - 1 \<and>
         1 \<le> snd (snd x) \<and> snd (snd x) \<le> 2 * int (length [P, H, P, H, H]) - 1"
    by blast
  then have a1: "(1::int) \<le> 8 \<and> (8::int) \<le> 2 * int (length [P, H, P, H, H]) - 1" by simp
  from placements_inside_lattice [where amino_acids = "[H, P, P, H]" and directions = ?ds
      and g' = g' and ord' = ?o2] 2 3
  have "\<forall>x \<in> set ?o2.
         1 \<le> fst (snd x) \<and> fst (snd x) \<le> 2 * int (length [H, P, P, H]) - 1 \<and>
         1 \<le> snd (snd x) \<and> snd (snd x) \<le> 2 * int (length [H, P, P, H]) - 1"
    by blast
  then have a2: "(1::int) \<le> 6 \<and> (6::int) \<le> 2 * int (length [H, P, P, H]) - 1" by simp
  show ?thesis using e1 e2 3 a1 a2 by simp
qed


theorem border_reached_counterexample:
  "map_sum id snd
     (initialize_grid_directional [H, P, H, P, H]
        [''Start'', ''straight'', ''straight'', ''straight'', ''straight''])
     = Inr [(H, (5, 5)), (P, (5, 6)), (H, (5, 7)), (P, (5, 8)), (H, (5, 2 * 5 - 1))] \<and>
   map_sum id snd (initialize_grid (draws [1]) [H, P, H, P, H])
     = Inr [(H, (5, 5)), (P, (6, 5)), (H, (7, 5)), (P, (8, 5)), (H, (2 * 5 - 1, 5))]"
  by code_simp

text \<open>
  C6 (early termination is a normal return). From any loop state of the stochastic engine
  whose last placement has no empty in-bounds neighbour, the loop returns at once, with
  exactly the grid and the order of that state. From any loop state of the directional
  engine whose next target cell is occupied or outside the lattice, the loop returns at
  once, with exactly the grid and the order of that state. For a non-empty chain each engine
  returns a result, never an exception (the directional engine for a turn sequence without a
  later \<open>'Start'\<close>); in the result every recorded residue is on the grid at its recorded
  position and the recorded residues are a prefix of the chain. The stochastic engine
  returns fewer residues than the chain has only when the last placement is such a dead
  end. The instance below is the shortest self-trapping walk, eight residues around the
  cell (9, 8), and a directional walk that turns left three times into its own start.
\<close>

theorem early_termination_returns_prefix:
  "(amino_acid_order \<noteq> [] \<and> valid_neighbors n g (snd (last amino_acid_order)) = [] \<longrightarrow>
      initialize_grid_loop rng k n g amino_acid_order copy m = Inr (g, amino_acid_order)) \<and>
   (direction \<noteq> ''Start'' \<and> turn_orientation ori direction = Some ori' \<and>
    movement_vectors ori' = Some mv \<and>
    \<not> (in_bounds n' (fst cur + fst mv, snd cur + snd mv) \<and>
       grid_get g' (fst cur + fst mv, snd cur + snd mv) = Empty) \<longrightarrow>
      directional_loop (direction # directions) n' g' ord' copy' cur ori = Inr (g', ord')) \<and>
   (amino_acids \<noteq> [] \<longrightarrow>
      (\<exists>gr po. initialize_grid rng amino_acids = Inr (gr, po) \<and>
         on_grid (length amino_acids * 2) gr po \<and>
         map fst po = take (length po) amino_acids \<and>
         (length po < length amino_acids \<longrightarrow>
            valid_neighbors (length amino_acids * 2) gr (snd (last po)) = []))) \<and>
   (amino_acids \<noteq> [] \<and> ''Start'' \<notin> set (tl ds) \<longrightarrow>
      (\<exists>gr po. initialize_grid_directional amino_acids ds = Inr (gr, po) \<and>
         on_grid (length amino_acids * 2) gr po \<and>
         map fst po = take (length po) amino_acids))"
proof (intro conjI impI)
  assume "amino_acid_order \<noteq> [] \<and> valid_neighbors n g (snd (last amino_acid_order)) = []"
  then show "initialize_grid_loop rng k n g amino_acid_order copy m = Inr (g, amino_acid_order)"
    by (subst initialize_grid_loop.simps) simp
next
  assume "direction \<noteq> ''Start'' \<and> turn_orientation ori direction = Some ori' \<and>
    movement_vectors ori' = Some mv \<and>
    \<not> (in_bounds n' (fst cur + fst mv, snd cur + snd mv) \<and>
       grid_get g' (fst cur + fst mv, snd cur + snd mv) = Empty)"
  then show "directional_loop (direction # directions) n' g' ord' copy' cur ori = Inr (g', ord')"
    by auto
next
  assume "amino_acids \<noteq> []"
  from initialize_grid_result [OF this, of rng]
  show "\<exists>gr po. initialize_grid rng amino_acids = Inr (gr, po) \<and>
         on_grid (length amino_acids * 2) gr po \<and>
         map fst po = take (length po) amino_acids \<and>
         (length po < length amino_acids \<longrightarrow>
            valid_neighbors (length amino_acids * 2) gr (snd (last po)) = [])"
    unfolding conformation_def by blast
next
  assume "amino_acids \<noteq> [] \<and> ''Start'' \<notin> set (tl ds)"
  then have "amino_acids \<noteq> []" "''Start'' \<notin> set (tl ds)" by simp_all
  from initialize_grid_directional_result [OF this]
  show "\<exists>gr po. initialize_grid_directional amino_acids ds = Inr (gr, po) \<and>
         on_grid (length amino_acids * 2) gr po \<and>
         map fst po = take (length po) amino_acids"
    unfolding conformation_def by blast
qed

theorem early_termination_returns_prefix_witness:
  "\<exists>gr gr'.
     [H, P, P, H, P, P, H, P, H] \<noteq> [] \<and>
     initialize_grid (draws [1, 1, 2, 0, 0, 2, 1]) [H, P, P, H, P, P, H, P, H]
       = Inr (gr, [(H, (9, 9)), (P, (10, 9)), (P, (10, 8)), (H, (10, 7)), (P, (9, 7)),
                   (P, (8, 7)), (H, (8, 8)), (P, (9, 8))]) \<and>
     valid_neighbors 18 gr (9, 8) = [] \<and>
     grid_get gr (9, 8) = Acid P \<and> grid_get gr (9, 9) = Acid H \<and>
     initialize_grid_loop (draws []) 7 18 gr
       [(H, (9, 9)), (P, (10, 9)), (P, (10, 8)), (H, (10, 7)), (P, (9, 7)),
        (P, (8, 7)), (H, (8, 8)), (P, (9, 8))] [H] 1
       = Inr (gr, [(H, (9, 9)), (P, (10, 9)), (P, (10, 8)), (H, (10, 7)), (P, (9, 7)),
                   (P, (8, 7)), (H, (8, 8)), (P, (9, 8))]) \<and>
     ''Start'' \<notin> set (tl [''Start'', ''straight'', ''left'', ''left'', ''left'']) \<and>
     initialize_grid_directional [H, P, P, H, H]
       [''Start'', ''straight'', ''left'', ''left'', ''left'']
       = Inr (gr', [(H, (5, 5)), (P, (5, 6)), (P, (4, 6)), (H, (4, 5))]) \<and>
     turn_orientation ''left'' ''left'' = Some ''down'' \<and>
     movement_vectors ''down'' = Some (1, 0) \<and>
     grid_get gr' (5, 5) = Acid H \<and>
     directional_loop [''left''] 10 gr' [(H, (5, 5)), (P, (5, 6)), (P, (4, 6)), (H, (4, 5))]
       [H] (4, 5) ''left''
       = Inr (gr', [(H, (5, 5)), (P, (5, 6)), (P, (4, 6)), (H, (4, 5))])"
proof -
  let ?chain = "[H, P, P, H, P, P, H, P, H]"
  let ?rng = "draws [1, 1, 2, 0, 0, 2, 1]"
  let ?o = "[(H, (9, 9)), (P, (10, 9)), (P, (10, 8)), (H, (10, 7)), (P, (9, 7)),
             (P, (8, 7)), (H, (8, 8)), (P, (9::int, 8::int))]"
  let ?chain' = "[H, P, P, H, H]"
  let ?ds = "[''Start'', ''straight'', ''left'', ''left'', ''left'']"
  let ?o' = "[(H, (5, 5)), (P, (5, 6)), (P, (4, 6)), (H, (4::int, 5::int))]"
  have ne: "?chain \<noteq> []" and ne': "?chain' \<noteq> []" and ns: "''Start'' \<notin> set (tl ?ds)"
    by simp_all
  have e: "map_sum id snd (initialize_grid ?rng ?chain) = Inr ?o" by code_simp
  have e': "map_sum id snd (initialize_grid_directional ?chain' ?ds) = Inr ?o'" by code_simp
  note a = early_termination_returns_prefix [THEN conjunct1, rule_format]
  note b = early_termination_returns_prefix [THEN conjunct2, THEN conjunct1, rule_format]
  note c = early_termination_returns_prefix
    [THEN conjunct2, THEN conjunct2, THEN conjunct1, rule_format]
  note d = early_termination_returns_prefix
    [THEN conjunct2, THEN conjunct2, THEN conjunct2, rule_format]
  from c [where amino_acids = ?chain and rng = ?rng, OF ne]
  obtain gr po where r: "initialize_grid ?rng ?chain = Inr (gr, po)"
    "on_grid (length ?chain * 2) gr po" by blast
  from r(1) e have po: "po = ?o" by simp
  have cells: "grid_get gr (9, 9) = Acid H" "grid_get gr (10, 8) = Acid P"
    "grid_get gr (9, 7) = Acid P" "grid_get gr (8, 8) = Acid H" "grid_get gr (9, 8) = Acid P"
    using r(2) unfolding po on_grid_def by simp_all
  have trapped: "valid_neighbors 18 gr (9, 8) = []"
    using cells by (simp add: valid_neighbors_def neighbors_def)
  from a [where amino_acid_order = ?o and n = 18 and g = gr and rng = "draws []" and k = 7
      and copy = "[H]" and m = 1] trapped
  have stop: "initialize_grid_loop (draws []) 7 18 gr ?o [H] 1 = Inr (gr, ?o)" by simp
  from d [where amino_acids = ?chain' and ds = ?ds] ne' ns
  obtain gr' po' where r': "initialize_grid_directional ?chain' ?ds = Inr (gr', po')"
    "on_grid (length ?chain' * 2) gr' po'" by blast
  from r'(1) e' have po': "po' = ?o'" by simp
  have cell': "grid_get gr' (5, 5) = Acid H"
    using r'(2) unfolding po' on_grid_def by simp
  have t: "turn_orientation ''left'' ''left'' = Some ''down''"
    "movement_vectors ''down'' = Some (1, 0)"
    by (simp_all add: turn_orientation_def get_new_orientation_def movement_vectors_def)
  from b [where direction = "''left''" and ori = "''left''" and ori' = "''down''"
      and mv = "(1, 0)" and cur = "(4, 5)" and n' = 10 and g' = gr' and ord' = ?o'
      and copy' = "[H]" and directions = "[]"] t cell'
  have stop': "directional_loop [''left''] 10 gr' ?o' [H] (4, 5) ''left'' = Inr (gr', ?o')"
    by simp
  show ?thesis
    using ne r(1) po trapped cells(1,5) stop ns r'(1) po' t cell' stop'
    by (intro exI [of _ gr] exI [of _ gr']) simp
qed

section \<open>Properties of the contact analyzer\<close>

text \<open>
  C3. For every conformation whose placement order lies on a single straight lattice line,
  \<open>find_H_bonds\<close> returns the empty set, whatever the residues are. The directional engine,
  given a non-empty chain and the turn sequence \<open>'Start'\<close> followed by any number of
  \<open>'straight'\<close>, returns such a conformation, so it has no H-bonds for every assignment of
  H and P. The instance is the chain HPHPH with four straight turns: five cells from (5, 5)
  to (5, 9), classified as straight throughout, with no bond.
\<close>

theorem straight_line_no_H_bonds:
  "(conformation n g ord \<and> straight_line ord \<longrightarrow> find_H_bonds g ord = {}) \<and>
   (amino_acids \<noteq> [] \<longrightarrow>
      (\<exists>g' ord'.
         initialize_grid_directional amino_acids (''Start'' # replicate k ''straight'')
           = Inr (g', ord') \<and>
         straight_line ord' \<and> find_H_bonds g' ord' = {}))"
proof (intro conjI impI)
  assume "conformation n g ord \<and> straight_line ord"
  then show "find_H_bonds g ord = {}" using straight_no_bonds by blast
next
  assume ne: "amino_acids \<noteq> []"
  let ?ds = "''Start'' # replicate k ''straight''"
  have ns: "''Start'' \<notin> set (tl ?ds)" by simp
  from initialize_grid_directional_result [OF ne ns] obtain g' ord' where
    r: "initialize_grid_directional amino_acids ?ds = Inr (g', ord')"
    "conformation (length amino_acids * 2) g' ord'"
    by blast
  have "straight_line ord'" using r(1) by (rule initialize_grid_directional_straight)
  with r straight_no_bonds show
    "\<exists>g' ord'. initialize_grid_directional amino_acids ?ds = Inr (g', ord') \<and>
         straight_line ord' \<and> find_H_bonds g' ord' = {}"
    by blast
qed

theorem straight_line_no_H_bonds_witness:
  "\<exists>g. [H, P, H, P, H] \<noteq> [] \<and>
     initialize_grid_directional [H, P, H, P, H]
       [''Start'', ''straight'', ''straight'', ''straight'', ''straight'']
       = Inr (g, [(H, (5, 5)), (P, (5, 6)), (H, (5, 7)), (P, (5, 8)), (H, (5, 9))]) \<and>
     conformation 10 g [(H, (5, 5)), (P, (5, 6)), (H, (5, 7)), (P, (5, 8)), (H, (5, 9))] \<and>
     straight_line [(H, (5, 5)), (P, (5, 6)), (H, (5, 7)), (P, (5, 8)), (H, (5, 9))] \<and>
     determine_directions [(H, (5, 5)), (P, (5, 6)), (H, (5, 7)), (P, (5, 8)), (H, (5, 9))]
       = [''Start'', ''straight'', ''straight'', ''straight'', ''straight''] \<and>
     find_H_bonds g [(H, (5, 5)), (P, (5, 6)), (H, (5, 7)), (P, (5, 8)), (H, (5, 9))] = {} \<and>
     card (find_H_bonds g [(H, (5, 5)), (P, (5, 6)), (H, (5, 7)), (P, (5, 8)), (H, (5, 9))]) = 0"
proof -
  let ?chain = "[H, P, H, P, H]"
  let ?ds = "[''Start'', ''straight'', ''straight'', ''straight'', ''straight'']"
  let ?o = "[(H, (5, 5)), (P, (5, 6)), (H, (5, 7)), (P, (5, 8)), (H, (5::int, 9::int))]"
  have ne: "?chain \<noteq> []" by simp
  have ds: "?ds = ''Start'' # replicate 4 ''straight''" by (simp add: numeral_eq_Suc)
  have e: "map_sum id snd (initialize_grid_directional ?chain ?ds) = Inr ?o" by code_simp
  have dd: "determine_directions ?o = ?ds" by code_simp
  from straight_line_no_H_bonds [THEN conjunct2, rule_format, OF ne, of 4]
  obtain g po where r: "initialize_grid_directional ?chain ?ds = Inr (g, po)"
    "straight_line po"
    unfolding ds by blast
  from r(1) e have po: "po = ?o" by simp
  have ns: "''Start'' \<notin> set (tl ?ds)" by simp
  from initialize_grid_directional_result [OF ne ns] r(1)
  have c: "conformation 10 g ?o" unfolding po by auto
  from straight_line_no_H_bonds [THEN conjunct1, rule_format, of 10 g ?o] c r(2)
  have z: "find_H_bonds g ?o = {}" unfolding po by simp
  show ?thesis
    using ne r c dd z unfolding po by (intro exI [of _ g]) simp
qed

section \<open>Properties of the H-ratio\<close>



section \<open>Properties of the backtracking engine\<close>

text \<open>
  C10 asks for a complete placement order, one entry for every residue. The code at a
  chain of nine residues on the 18 by 18 lattice: the draws lead the first eight residues
  around the cell (9, 8), where the eighth is trapped. The ninth call backtracks once,
  removes the eighth residue from the grid and from the order, and places the ninth
  residue next to the seventh. The engine returns success with a backtrack count of 1 and
  an order of eight entries: the eighth residue of the chain, a P, is on no cell.
\<close>

theorem backtracking_drops_residue:
  "length [H, P, P, H, P, P, H, P, H] = 9 \<and>
   map_sum id (\<lambda>r. (fst r, fst (snd r), snd (snd (snd r))))
     (place_amino_acid (draws [1, 1, 2, 0, 0, 2, 1]) 0 (np_full 18)
        [H, P, P, H, P, P, H, P, H] [] 0 None 0 0 0 0)
     = Inr (True, 1,
            [(H, (9, 9)), (P, (10, 9)), (P, (10, 8)), (H, (10, 7)), (P, (9, 7)), (P, (8, 7)),
             (H, (8, 8)), (H, (7, 8))]) \<and>
   map_sum id snd
     (initialize_grid_backtracking (draws [1, 1, 2, 0, 0, 2, 1]) [H, P, P, H, P, P, H, P, H])
     = Inr ([(H, (9, 9)), (P, (10, 9)), (P, (10, 8)), (H, (10, 7)), (P, (9, 7)), (P, (8, 7)),
             (H, (8, 8)), (H, (7, 8))], 1) \<and>
   length [(H, (9::int, 9::int)), (P, (10, 9)), (P, (10, 8)), (H, (10, 7)), (P, (9, 7)),
           (P, (8, 7)), (H, (8, 8)), (H, (7, 8))] = 8"
  by code_simp

end
